theory Spec2Isabelle
  imports Complex_Main
begin

section \<open>The Fertile Life simulation worker (src/src/simWorker.ts)\<close>

text \<open>
  The worker keeps its grid in module-level variables and reacts to messages. The source
  file holds two revisions of the worker. The second one (run-time parameters, \<open>reset\<close>,
  \<open>setParams\<close>) is embedded as \<open>onmessage\<close>; the first one (constant parameters,
  \<open>clear\<close>) as \<open>onmessage1\<close>. The tick, the rendering and \<open>postFrame\<close> are the same
  text in both and are embedded once.

  Numbers. A JavaScript \<open>number\<close> is a float64: \<open>NaN\<close>, one of the two infinities, or a
  finite value, modelled by the real number it denotes. The two zeros are one value: the
  worker never divides by a fertility and never inspects the sign of a zero. Every
  arithmetic operation rounds its exact result to float64, to the nearest value and to the
  even one at a tie; a store into a \<open>Float32Array\<close> rounds to float32 in the same way.
  Parameters are the finite numbers that the messages carry. Grid dimensions, cell
  coordinates and indices are integers, of either sign, with exact arithmetic (a typed
  array has fewer than \<open>2^53\<close> elements, and below that bound float64 arithmetic on
  integers is exact).

  Typed arrays. A buffer is a list. A read outside a typed array yields \<open>undefined\<close>;
  in every use the worker makes of such a value (arithmetic, \<open>===\<close> against a number,
  \<open>>=\<close>) it behaves exactly like \<open>NaN\<close>, so the read is modelled as \<open>NaN\<close>. A
  write outside a typed array is ignored, as in JavaScript. A constructor throws a
  \<open>RangeError\<close> when the length is negative, when the array would take \<open>2^53\<close> bytes or
  more, or when the engine cannot provide the memory; what the engine can provide is the
  field \<open>alloc\<close> of the state, which no command changes.

  Effects. The module-level variables are the fields of the record \<open>kernel\<close>, passed
  through every function. A loop is a fold of its body over its range, with an exact
  counter (the loops over a grid whose buffers exist have fewer than \<open>2^53\<close> rounds). An
  exception that leaves the message handler is an outcome of the handler, next to the
  state it leaves behind.
\<close>

subsection \<open>Numbers\<close>

datatype jsnum = NaN | PInf | NInf | Fin real

text \<open>Rounding to the nearest integer, halves to the even one.\<close>

definition round_half_even :: "real \<Rightarrow> int" where
  "round_half_even r =
     (let f = \<lfloor>r\<rfloor>; diff = r - of_int f
      in if diff < 1 / 2 then f
         else if 1 / 2 < diff then f + 1
         else if even f then f else f + 1)"

text \<open>Rounding a real number to a binary floating-point format with \<open>p\<close> significant bits
  and exponents from \<open>emin\<close> to \<open>emax\<close>. The binary exponent of \<open>x\<close> is \<open>expo x\<close>; the
  representable numbers around \<open>x\<close> are the multiples of \<open>ulp p emin x\<close> (those of the
  smallest exponent below \<open>2 ^ emin\<close>, the subnormal range); \<open>x\<close> goes to the nearest
  multiple, and to an infinity when that exceeds the largest finite number of the format.\<close>

definition expo :: "real \<Rightarrow> int" where
  "expo x = \<lfloor>log 2 \<bar>x\<bar>\<rfloor>"

definition ulp :: "nat \<Rightarrow> int \<Rightarrow> real \<Rightarrow> real" where
  "ulp p emin x = 2 powi (max emin (expo x) - int p + 1)"

definition rnd_val :: "nat \<Rightarrow> int \<Rightarrow> real \<Rightarrow> real" where
  "rnd_val p emin x =
     (if x = 0 then 0
      else of_int (round_half_even (x / ulp p emin x)) * ulp p emin x)"

definition rnd :: "nat \<Rightarrow> int \<Rightarrow> int \<Rightarrow> real \<Rightarrow> jsnum" where
  "rnd p emin emax x =
     (let y = rnd_val p emin x
      in if (2 ^ p - 1) * 2 powi (emax - int p + 1) < \<bar>y\<bar>
         then (if 0 < x then PInf else NInf)
         else Fin y)"

text \<open>float64 and float32. \<open>r64\<close> is the float64 nearest to a real number in the range of
  float64; it is the value of a decimal literal of the source.\<close>

definition f64 :: "real \<Rightarrow> jsnum" where
  "f64 = rnd 53 (- 1022) 1023"

definition f32 :: "real \<Rightarrow> jsnum" where
  "f32 = rnd 24 (- 126) 127"

definition r64 :: "real \<Rightarrow> real" where
  "r64 = rnd_val 53 (- 1022)"

text \<open>The arithmetic of JavaScript numbers.\<close>

fun nplus :: "jsnum \<Rightarrow> jsnum \<Rightarrow> jsnum" where
  "nplus (Fin a) (Fin b) = f64 (a + b)"
| "nplus NaN _ = NaN"
| "nplus _ NaN = NaN"
| "nplus PInf NInf = NaN"
| "nplus NInf PInf = NaN"
| "nplus PInf _ = PInf"
| "nplus _ PInf = PInf"
| "nplus NInf _ = NInf"
| "nplus _ NInf = NInf"

fun nminus :: "jsnum \<Rightarrow> jsnum \<Rightarrow> jsnum" where
  "nminus (Fin a) (Fin b) = f64 (a - b)"
| "nminus NaN _ = NaN"
| "nminus _ NaN = NaN"
| "nminus PInf PInf = NaN"
| "nminus NInf NInf = NaN"
| "nminus PInf _ = PInf"
| "nminus _ PInf = NInf"
| "nminus NInf _ = NInf"
| "nminus _ NInf = PInf"

fun ntimes :: "jsnum \<Rightarrow> jsnum \<Rightarrow> jsnum" where
  "ntimes (Fin a) (Fin b) = f64 (a * b)"
| "ntimes NaN _ = NaN"
| "ntimes _ NaN = NaN"
| "ntimes (Fin a) y = (if a = 0 then NaN else if (0 < a) = (y = PInf) then PInf else NInf)"
| "ntimes x (Fin b) = (if b = 0 then NaN else if (0 < b) = (x = PInf) then PInf else NInf)"
| "ntimes x y = (if x = y then PInf else NInf)"

text \<open>Division by a positive constant (the only division in the worker is by
  \<open>F_VIS_CAP\<close>).\<close>

fun ndivc :: "jsnum \<Rightarrow> real \<Rightarrow> jsnum" where
  "ndivc (Fin a) c = f64 (a / c)"
| "ndivc x c = x"

text \<open>\<open>Math.max\<close> and \<open>Math.min\<close> return \<open>NaN\<close> as soon as one argument is
  \<open>NaN\<close>.\<close>

fun nmax :: "jsnum \<Rightarrow> jsnum \<Rightarrow> jsnum" where
  "nmax (Fin a) (Fin b) = Fin (max a b)"
| "nmax NaN _ = NaN"
| "nmax _ NaN = NaN"
| "nmax PInf _ = PInf"
| "nmax _ PInf = PInf"
| "nmax NInf y = y"
| "nmax x NInf = x"

fun nmin :: "jsnum \<Rightarrow> jsnum \<Rightarrow> jsnum" where
  "nmin (Fin a) (Fin b) = Fin (min a b)"
| "nmin NaN _ = NaN"
| "nmin _ NaN = NaN"
| "nmin NInf _ = NInf"
| "nmin _ NInf = NInf"
| "nmin PInf y = y"
| "nmin x PInf = x"

text \<open>\<open>>=\<close> is false as soon as one side is \<open>NaN\<close>.\<close>

fun nge :: "jsnum \<Rightarrow> jsnum \<Rightarrow> bool" where
  "nge (Fin a) (Fin b) = (b \<le> a)"
| "nge NaN _ = False"
| "nge _ NaN = False"
| "nge PInf _ = True"
| "nge _ NInf = True"
| "nge _ _ = False"

text \<open>\<open>Math.sqrt\<close> of a negative number is \<open>NaN\<close> (HOL's \<open>sqrt\<close> is odd instead).\<close>

fun nsqrt :: "jsnum \<Rightarrow> jsnum" where
  "nsqrt (Fin a) = (if a < 0 then NaN else f64 (sqrt a))"
| "nsqrt PInf = PInf"
| "nsqrt _ = NaN"

text \<open>\<open>Math.round\<close> rounds halves up; its result is an integer, hence a float64.\<close>

fun nround :: "jsnum \<Rightarrow> jsnum" where
  "nround (Fin a) = Fin (of_int \<lfloor>a + 1 / 2\<rfloor>)"
| "nround x = x"

subsection \<open>Typed arrays\<close>

text \<open>Storing a number in a \<open>Uint8Array\<close>: \<open>NaN\<close> and the infinities become 0, anything
  else is truncated towards zero and taken modulo 256.\<close>

fun to_uint8 :: "jsnum \<Rightarrow> nat" where
  "to_uint8 (Fin r) = nat ((if r < 0 then - \<lfloor>- r\<rfloor> else \<lfloor>r\<rfloor>) mod 256)"
| "to_uint8 _ = 0"

text \<open>Storing a number in a \<open>Uint8ClampedArray\<close>: \<open>NaN\<close> becomes 0, anything else
  is clamped to 0..255 and rounded to the nearest integer, halves to the even one.\<close>

fun to_uint8c :: "jsnum \<Rightarrow> nat" where
  "to_uint8c (Fin r) =
     (if r \<le> 0 then 0 else if 255 \<le> r then 255 else nat (round_half_even r))"
| "to_uint8c PInf = 255"
| "to_uint8c _ = 0"

text \<open>Storing a number in a \<open>Float32Array\<close>: a finite number is rounded to float32, which
  may turn it into an infinity.\<close>

fun store32 :: "jsnum \<Rightarrow> jsnum" where
  "store32 (Fin a) = f32 a"
| "store32 x = x"

text \<open>Element reads and writes of typed arrays, at an integer index.\<close>

definition rd8 :: "nat list \<Rightarrow> int \<Rightarrow> jsnum" where
  "rd8 xs i = (if 0 \<le> i \<and> i < int (length xs) then Fin (real (xs ! nat i)) else NaN)"

definition rdf :: "jsnum list \<Rightarrow> int \<Rightarrow> jsnum" where
  "rdf xs i = (if 0 \<le> i \<and> i < int (length xs) then xs ! nat i else NaN)"

definition wr :: "'a list \<Rightarrow> int \<Rightarrow> 'a \<Rightarrow> 'a list" where
  "wr xs i v = (if 0 \<le> i \<and> i < int (length xs) then xs[nat i := v] else xs)"

text \<open>\<open>xs.fill(v)\<close>.\<close>

definition fill :: "'a list \<Rightarrow> 'a \<Rightarrow> 'a list" where
  "fill xs v = replicate (length xs) v"

text \<open>\<open>for (let i = 0; i < n; i++) body\<close>, over a state of any type.\<close>

definition for_loop :: "int \<Rightarrow> (int \<Rightarrow> 's \<Rightarrow> 's) \<Rightarrow> 's \<Rightarrow> 's" where
  "for_loop n body s = fold body [0..n - 1] s"

subsection \<open>The module-level state\<close>

text \<open>The last field is not a variable of the worker: \<open>alloc s b n\<close> tells whether the
  engine can provide the memory of a typed array of \<open>n\<close> elements of \<open>b\<close> bytes.\<close>

record kernel =
  initialized :: bool
  W :: int
  H :: int
  N :: int
  A :: "nat list"
  F :: "jsnum list"
  A2 :: "nat list"
  gen :: nat
  Fsum :: "jsnum list"
  Nsum :: "nat list"
  f0 :: real
  tau :: real
  sigma :: real
  alpha :: real
  beta :: real
  kappa :: real
  d :: real
  delta :: real
  w0 :: real
  w1 :: real
  alloc :: "int \<Rightarrow> int \<Rightarrow> bool"

text \<open>The values the module-level variables have when the worker is loaded, on an engine
  with no memory limit of its own; \<open>w1\<close> is computed as \<open>1 - w0\<close>.\<close>

definition boot :: kernel where
  "boot = \<lparr> initialized = False, W = 0, H = 0, N = 0, A = [], F = [], A2 = [],
            gen = 0, Fsum = [], Nsum = [],
            f0 = r64 (7 / 10), tau = r64 (5 / 10), sigma = r64 (1 / 10), alpha = r64 1,
            beta = r64 (4 / 10), kappa = r64 (3 / 100), d = r64 (3 / 10),
            delta = r64 (8 / 1000), w0 = r64 (6 / 10),
            w1 = r64 (1 - r64 (6 / 10)), alloc = (\<lambda>b n. True) \<rparr>"

text \<open>The first revision has constant parameters, and no \<open>f0\<close> (the field is not
  used).\<close>

definition boot1 :: kernel where
  "boot1 = \<lparr> initialized = False, W = 0, H = 0, N = 0, A = [], F = [], A2 = [],
             gen = 0, Fsum = [], Nsum = [],
             f0 = 0, tau = r64 (55 / 100), sigma = r64 (8 / 100), alpha = r64 (12 / 10),
             beta = r64 (6 / 10), kappa = r64 (4 / 100), d = r64 (3 / 10),
             delta = r64 (8 / 1000), w0 = r64 (6 / 10), w1 = r64 (4 / 10),
             alloc = (\<lambda>b n. True) \<rparr>"

definition F_VIS_CAP :: real where
  "F_VIS_CAP = r64 (15 / 10)"

definition DEAD_SOIL_TINT :: "real list" where
  "DEAD_SOIL_TINT = [30, 26, 18]"

definition SOIL_TINT_SCALE :: "real list" where
  "SOIL_TINT_SCALE = [r64 0, r64 (75 / 100), r64 (2 / 10)]"

definition LIVE_COLOR :: "real list" where
  "LIVE_COLOR = [230, 255, 230]"

definition idx :: "kernel \<Rightarrow> int \<Rightarrow> int \<Rightarrow> int" where
  "idx s x y = y * W s + x"

datatype error = RangeError

text \<open>Whether \<open>new Uint8Array(n)\<close> (\<open>b = 1\<close>), \<open>new Uint8ClampedArray(n)\<close> (\<open>b = 1\<close>)
  or \<open>new Float32Array(n)\<close> (\<open>b = 4\<close>) returns an array; otherwise it throws a
  \<open>RangeError\<close>.\<close>

definition can_alloc :: "kernel \<Rightarrow> int \<Rightarrow> int \<Rightarrow> bool" where
  "can_alloc s b n \<longleftrightarrow> 0 \<le> n \<and> b * n < 2 ^ 53 \<and> alloc s b n"

text \<open>\<open>ensureArrays\<close>. When a constructor throws, the assignments before it have taken
  place: \<open>W\<close>, \<open>H\<close> and \<open>N\<close>, and \<open>A\<close> as well if it is the second constructor. The
  last three constructors ask for what the first two have obtained.\<close>

definition ensureArrays :: "int \<Rightarrow> int \<Rightarrow> kernel \<Rightarrow> kernel \<times> error option" where
  "ensureArrays width height s =
     (let s1 = s\<lparr>W := width\<rparr>;
          s2 = s1\<lparr>H := height\<rparr>;
          s3 = s2\<lparr>N := W s2 * H s2\<rparr>
      in if \<not> can_alloc s3 1 (N s3) then (s3, Some RangeError)
         else
           let s4 = s3\<lparr>A := replicate (nat (N s3)) 0\<rparr>
           in if \<not> can_alloc s4 4 (N s4) then (s4, Some RangeError)
              else
                let s5 = s4\<lparr>F := replicate (nat (N s4)) (Fin 0)\<rparr>;
                    s6 = s5\<lparr>F := fill (F s5) (store32 (Fin (f0 s5)))\<rparr>;
                    s7 = s6\<lparr>A2 := replicate (nat (N s6)) 0\<rparr>;
                    s8 = s7\<lparr>Fsum := replicate (nat (N s7)) (Fin 0)\<rparr>;
                    s9 = s8\<lparr>Nsum := replicate (nat (N s8)) 0\<rparr>;
                    s10 = s9\<lparr>gen := 0\<rparr>
                in (s10\<lparr>initialized := True\<rparr>, None))"

text \<open>\<open>ensureArrays\<close> of the first revision leaves the fertility at the zeros of the
  constructor.\<close>

definition ensureArrays1 :: "int \<Rightarrow> int \<Rightarrow> kernel \<Rightarrow> kernel \<times> error option" where
  "ensureArrays1 width height s =
     (let s1 = s\<lparr>W := width\<rparr>;
          s2 = s1\<lparr>H := height\<rparr>;
          s3 = s2\<lparr>N := W s2 * H s2\<rparr>
      in if \<not> can_alloc s3 1 (N s3) then (s3, Some RangeError)
         else
           let s4 = s3\<lparr>A := replicate (nat (N s3)) 0\<rparr>
           in if \<not> can_alloc s4 4 (N s4) then (s4, Some RangeError)
              else
                let s5 = s4\<lparr>F := replicate (nat (N s4)) (Fin 0)\<rparr>;
                    s7 = s5\<lparr>A2 := replicate (nat (N s5)) 0\<rparr>;
                    s8 = s7\<lparr>Fsum := replicate (nat (N s7)) (Fin 0)\<rparr>;
                    s9 = s8\<lparr>Nsum := replicate (nat (N s8)) 0\<rparr>;
                    s10 = s9\<lparr>gen := 0\<rparr>
                in (s10\<lparr>initialized := True\<rparr>, None))"

subsection \<open>One tick\<close>

text \<open>The body of the aggregation loop at column \<open>x\<close> of row \<open>y\<close>. The sums are
  JavaScript numbers, added from left to right; the sum of the fertilities is stored in a
  \<open>Float32Array\<close>.\<close>

definition agg_cell :: "int \<Rightarrow> int \<Rightarrow> kernel \<Rightarrow> kernel" where
  "agg_cell y x s =
     (let Wm1 = W s - 1; Hm1 = H s - 1;
          yu = (if y = 0 then Hm1 else y - 1);
          yd = (if y = Hm1 then 0 else y + 1);
          xl = (if x = 0 then Wm1 else x - 1);
          xr = (if x = Wm1 then 0 else x + 1);
          p0 = idx s xl yu; p1 = idx s x yu; p2 = idx s xr yu;
          p3 = idx s xl y; p5 = idx s xr y;
          p6 = idx s xl yd; p7 = idx s x yd; p8 = idx s xr yd;
          i = idx s x y;
          n = nplus (nplus (nplus (nplus (nplus (nplus (nplus
                (rd8 (A s) p0) (rd8 (A s) p1)) (rd8 (A s) p2)) (rd8 (A s) p3))
                (rd8 (A s) p5)) (rd8 (A s) p6)) (rd8 (A s) p7)) (rd8 (A s) p8);
          s1 = s\<lparr>Nsum := wr (Nsum s) i (to_uint8 n)\<rparr>;
          fs = nplus (nplus (nplus (nplus (nplus (nplus (nplus
                (rdf (F s1) p0) (rdf (F s1) p1)) (rdf (F s1) p2)) (rdf (F s1) p3))
                (rdf (F s1) p5)) (rdf (F s1) p6)) (rdf (F s1) p7)) (rdf (F s1) p8)
      in s1\<lparr>Fsum := wr (Fsum s1) i (store32 fs)\<rparr>)"

definition aggregate :: "kernel \<Rightarrow> kernel" where
  "aggregate s = for_loop (H s) (\<lambda>y. for_loop (W s) (\<lambda>x. agg_cell y x)) s"

text \<open>The body of the transition loop at cell \<open>i\<close>; the second component is
  \<open>aliveNext\<close>. \<open>E\<close> is a float64; the new fertility is stored in a \<open>Float32Array\<close>.\<close>

definition trans_cell :: "int \<Rightarrow> kernel \<times> nat \<Rightarrow> kernel \<times> nat" where
  "trans_cell i = (\<lambda>(s, aliveNext).
     let n = rd8 (Nsum s) i;
         favg = ntimes (rdf (Fsum s) i) (Fin (1 / 8));
         E = nplus (ntimes (Fin (w0 s)) (rdf (F s) i)) (ntimes (Fin (w1 s)) favg);
         a = rd8 (A s) i;
         birth = (a = Fin 0 \<and> n = Fin 3 \<and> nge E (Fin (tau s)));
         survive = (a = Fin 1 \<and> (n = Fin 2 \<or> n = Fin 3) \<and> nge E (Fin (sigma s)));
         aNext = (if birth \<or> survive then 1 else 0 :: nat);
         s1 = s\<lparr>A2 := wr (A2 s) i aNext\<rparr>;
         aliveNext1 = (if aNext \<noteq> 0 then aliveNext + 1 else aliveNext);
         s2 = (if a = Fin 1 \<and> aNext = 0
               then s1\<lparr>F := wr (F s1) i
                      (store32 (nplus (rdf (F s1) i) (Fin (alpha s1))))\<rparr>
               else s1);
         s3 = (if a = Fin 0 \<and> aNext = 1
               then s2\<lparr>F := wr (F s2) i
                      (store32 (nmax (Fin 0) (nminus (rdf (F s2) i) (Fin (beta s2)))))\<rparr>
               else s2);
         s4 = (if a = Fin 1 \<and> aNext = 1
               then s3\<lparr>F := wr (F s3) i
                      (store32 (nmax (Fin 0) (nminus (rdf (F s3) i) (Fin (kappa s3)))))\<rparr>
               else s3)
     in (s4, aliveNext1))"

definition transitions :: "kernel \<Rightarrow> kernel \<times> nat" where
  "transitions s = for_loop (N s) trans_cell (s, 0)"

text \<open>The body of the diffusion and decay loop at cell \<open>i\<close>; \<open>1 - delta\<close> is a float64
  subtraction.\<close>

definition diff_cell :: "int \<Rightarrow> kernel \<Rightarrow> kernel" where
  "diff_cell i s =
     (let favg = ntimes (rdf (Fsum s) i) (Fin (1 / 8))
      in s\<lparr>F := wr (F s) i
            (store32 (nmax (Fin 0)
               (ntimes (nplus (rdf (F s) i)
                              (ntimes (Fin (d s)) (nminus favg (rdf (F s) i))))
                       (nminus (Fin 1) (Fin (delta s))))))\<rparr>)"

definition diffuse :: "kernel \<Rightarrow> kernel" where
  "diffuse s = for_loop (N s) diff_cell s"

definition step :: "kernel \<Rightarrow> kernel \<times> nat" where
  "step s =
     (let s1 = aggregate s;
          (s2, aliveNext) = transitions s1;
          s3 = diffuse s2;
          s4 = s3\<lparr>A := A2 s3, A2 := A s3\<rparr>;
          s5 = s4\<lparr>gen := gen s4 + 1\<rparr>
      in (s5, aliveNext))"

subsection \<open>Rendering\<close>

definition render_cell :: "kernel \<Rightarrow> int \<Rightarrow> nat list \<Rightarrow> nat list" where
  "render_cell s i out =
     (let t = nmin (ndivc (rdf (F s) i) F_VIS_CAP) (Fin 1);
          c = nsqrt t;
          r0 = nplus (Fin (DEAD_SOIL_TINT ! 0))
                 (nround (ntimes (ntimes (Fin (SOIL_TINT_SCALE ! 0)) (Fin 255)) c));
          g0 = nplus (Fin (DEAD_SOIL_TINT ! 1))
                 (nround (ntimes (ntimes (Fin (SOIL_TINT_SCALE ! 1)) (Fin 255)) c));
          b0 = nplus (Fin (DEAD_SOIL_TINT ! 2))
                 (nround (ntimes (ntimes (Fin (SOIL_TINT_SCALE ! 2)) (Fin 255)) c));
          live = (rd8 (A s) i = Fin 1);
          r = (if live then Fin (LIVE_COLOR ! 0) else r0);
          g = (if live then Fin (LIVE_COLOR ! 1) else g0);
          b = (if live then Fin (LIVE_COLOR ! 2) else b0);
          j = i * 4;
          out1 = wr out (j + 0) (to_uint8c r);
          out2 = wr out1 (j + 1) (to_uint8c g);
          out3 = wr out2 (j + 2) (to_uint8c b)
      in wr out3 (j + 3) (to_uint8c (Fin 255)))"

text \<open>\<open>renderFrame\<close>; \<open>new Uint8ClampedArray(N * 4)\<close> may throw.\<close>

definition renderFrame :: "kernel \<Rightarrow> error + nat list" where
  "renderFrame s =
     (if \<not> can_alloc s 1 (N s * 4) then Inl RangeError
      else Inr (for_loop (N s) (render_cell s) (replicate (nat (N s * 4)) 0)))"

subsection \<open>Messages\<close>

datatype frame_source = SrcInit | SrcStep | SrcRender | SrcReset | SrcClear

record frame =
  source :: frame_source
  width :: int
  height :: int
  generation :: nat
  alive :: nat
  buffer :: "nat list"

text \<open>What handling one message does besides changing the state: nothing, a frame
  posted to the host, or an exception that leaves the handler.\<close>

datatype outcome = NoFrame | Posted frame | Threw error

definition postFrame :: "kernel \<Rightarrow> nat \<Rightarrow> frame_source \<Rightarrow> outcome" where
  "postFrame s aliveCount src =
     (case renderFrame s of
        Inl e \<Rightarrow> Threw e
      | Inr pixels \<Rightarrow>
          Posted \<lparr> source = src, width = W s, height = H s, generation = gen s,
                   alive = aliveCount, buffer = pixels \<rparr>)"

text \<open>The \<open>params\<close> object of a \<open>setParams\<close> message: every field may be absent.\<close>

record params =
  p_f0 :: "real option"
  p_tau :: "real option"
  p_sigma :: "real option"
  p_alpha :: "real option"
  p_beta :: "real option"
  p_kappa :: "real option"
  p_d :: "real option"
  p_delta :: "real option"
  p_w0 :: "real option"

text \<open>The messages of both revisions. The cell value of \<open>setCell\<close> has the type
  \<open>0 | 1\<close>, modelled as a Boolean and stored as 0 or 1.\<close>

datatype msg =
    Init int int
  | Step
  | Render
  | Reset
  | SetCell int int bool
  | SetParams params
  | Clear

text \<open>The handler of the second revision. Its \<open>switch\<close> has no case for \<open>clear\<close>: the
  message is ignored. \<open>w1 = 1 - w0\<close> is a float64 subtraction; its operand lies between
  0 and 1, so the result is finite.\<close>

fun onmessage :: "kernel \<Rightarrow> msg \<Rightarrow> kernel \<times> outcome" where
  "onmessage s (Init wd ht) =
     (case ensureArrays wd ht s of
        (s1, Some e) \<Rightarrow> (s1, Threw e)
      | (s1, None) \<Rightarrow> (s1, postFrame s1 0 SrcInit))"
| "onmessage s Step =
     (if \<not> initialized s then (s, NoFrame)
      else let (s1, aliveN) = step s in (s1, postFrame s1 aliveN SrcStep))"
| "onmessage s Render =
     (if \<not> initialized s then (s, NoFrame)
      else (s, postFrame s (sum_list (A s)) SrcRender))"
| "onmessage s Reset =
     (if \<not> initialized s then (s, NoFrame)
      else let s1 = s\<lparr>A := fill (A s) 0\<rparr>;
               s2 = s1\<lparr>F := fill (F s1) (store32 (Fin (f0 s1)))\<rparr>;
               s3 = s2\<lparr>gen := 0\<rparr>
           in (s3, postFrame s3 0 SrcReset))"
| "onmessage s (SetCell x y v) =
     (if \<not> initialized s then (s, NoFrame)
      else if 0 \<le> x \<and> 0 \<le> y \<and> x < W s \<and> y < H s
      then (s\<lparr>A := wr (A s) (idx s x y) (if v then 1 else 0)\<rparr>, NoFrame)
      else (s, NoFrame))"
| "onmessage s (SetParams p) =
     (let s1 = (case p_f0 p of Some v \<Rightarrow> s\<lparr>f0 := v\<rparr> | None \<Rightarrow> s);
          s2 = (case p_tau p of Some v \<Rightarrow> s1\<lparr>tau := v\<rparr> | None \<Rightarrow> s1);
          s3 = (case p_sigma p of Some v \<Rightarrow> s2\<lparr>sigma := v\<rparr> | None \<Rightarrow> s2);
          s4 = (case p_alpha p of Some v \<Rightarrow> s3\<lparr>alpha := v\<rparr> | None \<Rightarrow> s3);
          s5 = (case p_beta p of Some v \<Rightarrow> s4\<lparr>beta := v\<rparr> | None \<Rightarrow> s4);
          s6 = (case p_kappa p of Some v \<Rightarrow> s5\<lparr>kappa := v\<rparr> | None \<Rightarrow> s5);
          s7 = (case p_d p of Some v \<Rightarrow> s6\<lparr>d := v\<rparr> | None \<Rightarrow> s6);
          s8 = (case p_delta p of Some v \<Rightarrow> s7\<lparr>delta := v\<rparr> | None \<Rightarrow> s7);
          s9 = (case p_w0 p of
                  Some v \<Rightarrow> (let sa = s8\<lparr>w0 := max 0 (min 1 v)\<rparr>
                             in sa\<lparr>w1 := r64 (1 - w0 sa)\<rparr>)
                | None \<Rightarrow> s8)
      in (s9, NoFrame))"
| "onmessage s Clear = (s, NoFrame)"

text \<open>Handling a sequence of messages.\<close>

fun run :: "kernel \<Rightarrow> msg list \<Rightarrow> kernel" where
  "run s [] = s"
| "run s (m # ms) = run (fst (onmessage s m)) ms"

subsection \<open>The first revision\<close>

text \<open>The handler of the first revision: it has a \<open>clear\<close> command, and neither
  \<open>reset\<close> nor \<open>setParams\<close>.\<close>

fun onmessage1 :: "kernel \<Rightarrow> msg \<Rightarrow> kernel \<times> outcome" where
  "onmessage1 s (Init wd ht) =
     (case ensureArrays1 wd ht s of
        (s1, Some e) \<Rightarrow> (s1, Threw e)
      | (s1, None) \<Rightarrow> (s1, postFrame s1 0 SrcInit))"
| "onmessage1 s Step =
     (if \<not> initialized s then (s, NoFrame)
      else let (s1, aliveN) = step s in (s1, postFrame s1 aliveN SrcStep))"
| "onmessage1 s Render =
     (if \<not> initialized s then (s, NoFrame)
      else (s, postFrame s (sum_list (A s)) SrcRender))"
| "onmessage1 s (SetCell x y v) =
     (if \<not> initialized s then (s, NoFrame)
      else if 0 \<le> x \<and> 0 \<le> y \<and> x < W s \<and> y < H s
      then (s\<lparr>A := wr (A s) (idx s x y) (if v then 1 else 0)\<rparr>, NoFrame)
      else (s, NoFrame))"
| "onmessage1 s Clear =
     (if \<not> initialized s then (s, NoFrame)
      else let s1 = s\<lparr>A := fill (A s) 0\<rparr>;
               s2 = s1\<lparr>F := fill (F s1) (store32 (Fin 0))\<rparr>;
               s3 = s2\<lparr>gen := 0\<rparr>
           in (s3, postFrame s3 0 SrcClear))"
| "onmessage1 s Reset = (s, NoFrame)"
| "onmessage1 s (SetParams p) = (s, NoFrame)"

section \<open>Notions for stating and proving the properties\<close>

subsection \<open>The torus, in the words of the specification\<close>

text \<open>The eight neighbours of the cell at column \<open>x\<close> of row \<open>y\<close> on a torus of
  width \<open>w\<close> and height \<open>h\<close>: column -1 wraps to \<open>w - 1\<close>, column \<open>w\<close> wraps to 0,
  and likewise for rows. The worker computes the same indices with conditionals
  (\<open>agg_cell\<close>); lemma \<open>agg_cell_torus\<close> relates the two.\<close>

definition torus_nbrs :: "int \<Rightarrow> int \<Rightarrow> int \<Rightarrow> int \<Rightarrow> int list" where
  "torus_nbrs w h x y =
     map (\<lambda>(dx, dy). ((y + dy) mod h) * w + ((x + dx) mod w))
       [(- 1, - 1), (0, - 1), (1, - 1), (- 1, 0), (1, 0), (- 1, 1), (0, 1), (1, 1)]"

text \<open>The number of live neighbours, for a liveness buffer.\<close>

definition live_count :: "nat list \<Rightarrow> int \<Rightarrow> int \<Rightarrow> int \<Rightarrow> int \<Rightarrow> nat" where
  "live_count cells w h x y = sum_list (map (\<lambda>p. cells ! nat p) (torus_nbrs w h x y))"

text \<open>The sums over the eight neighbours as the worker computes them: JavaScript numbers
  added from left to right, each addition rounded to float64.\<close>

definition nsum_js :: "nat list \<Rightarrow> int \<Rightarrow> int \<Rightarrow> int \<Rightarrow> int \<Rightarrow> jsnum" where
  "nsum_js cells w h x y =
     (let ps = torus_nbrs w h x y
      in foldl nplus (rd8 cells (hd ps)) (map (rd8 cells) (tl ps)))"

definition fsum_js :: "jsnum list \<Rightarrow> int \<Rightarrow> int \<Rightarrow> int \<Rightarrow> int \<Rightarrow> jsnum" where
  "fsum_js soil w h x y =
     (let ps = torus_nbrs w h x y
      in foldl nplus (rdf soil (hd ps)) (map (rdf soil) (tl ps)))"

subsection \<open>Well-formed grids\<close>

text \<open>A grid as a successful \<open>init\<close> with positive dimensions leaves it and every
  later command but a failing \<open>init\<close> keeps it: \<open>N = W * H\<close> and five buffers of \<open>N\<close>
  cells.\<close>

definition grid_ok :: "kernel \<Rightarrow> bool" where
  "grid_ok s \<longleftrightarrow>
     0 < W s \<and> 0 < H s \<and> N s = W s * H s \<and>
     int (length (A s)) = N s \<and> int (length (F s)) = N s \<and> int (length (A2 s)) = N s \<and>
     int (length (Fsum s)) = N s \<and> int (length (Nsum s)) = N s"

text \<open>Buffers long enough for the loops over \<open>0 \<le> i < N\<close> to stay inside them.\<close>

definition bufs_ok :: "kernel \<Rightarrow> bool" where
  "bufs_ok s \<longleftrightarrow>
     N s \<le> int (length (A s)) \<and> N s \<le> int (length (F s)) \<and> N s \<le> int (length (A2 s)) \<and>
     N s \<le> int (length (Fsum s)) \<and> N s \<le> int (length (Nsum s))"

text \<open>A liveness buffer that holds only 0 and 1.\<close>

definition binary :: "nat list \<Rightarrow> bool" where
  "binary cells \<longleftrightarrow> (\<forall>v \<in> set cells. v \<le> 1)"

subsection \<open>What a tick computes at one cell\<close>

text \<open>The effective fertility, from the fertility \<open>f\<close> of the cell and the stored
  neighbour sum \<open>g\<close>; the next liveness, from the liveness \<open>a\<close>, the neighbour count
  \<open>n\<close> and the effective fertility; the fertility after the bookkeeping; the fertility
  after diffusion and decay. These are the expressions of \<open>trans_cell\<close> and
  \<open>diff_cell\<close>, with their float64 operations and float32 stores.\<close>

definition eff :: "kernel \<Rightarrow> jsnum \<Rightarrow> jsnum \<Rightarrow> jsnum" where
  "eff s f g = nplus (ntimes (Fin (w0 s)) f) (ntimes (Fin (w1 s)) (ntimes g (Fin (1 / 8))))"

definition rule_next :: "kernel \<Rightarrow> nat \<Rightarrow> nat \<Rightarrow> jsnum \<Rightarrow> nat" where
  "rule_next s a n E =
     (if (a = 0 \<and> n = 3 \<and> nge E (Fin (tau s))) \<or>
         (a = 1 \<and> (n = 2 \<or> n = 3) \<and> nge E (Fin (sigma s)))
      then 1 else 0)"

definition book :: "kernel \<Rightarrow> nat \<Rightarrow> nat \<Rightarrow> jsnum \<Rightarrow> jsnum" where
  "book s a nx f =
     (if a = 1 \<and> nx = 0 then store32 (nplus f (Fin (alpha s)))
      else if a = 0 \<and> nx = 1 then store32 (nmax (Fin 0) (nminus f (Fin (beta s))))
      else if a = 1 \<and> nx = 1 then store32 (nmax (Fin 0) (nminus f (Fin (kappa s))))
      else f)"

definition next_cell :: "kernel \<Rightarrow> int \<Rightarrow> nat" where
  "next_cell s i =
     rule_next s (A s ! nat i) (Nsum s ! nat i) (eff s (F s ! nat i) (Fsum s ! nat i))"

definition book_cell :: "kernel \<Rightarrow> int \<Rightarrow> jsnum" where
  "book_cell s i = book s (A s ! nat i) (next_cell s i) (F s ! nat i)"

definition diff_val :: "kernel \<Rightarrow> jsnum \<Rightarrow> jsnum \<Rightarrow> jsnum" where
  "diff_val s f g =
     store32 (nmax (Fin 0)
       (ntimes (nplus f (ntimes (Fin (d s)) (nminus (ntimes g (Fin (1 / 8))) f)))
               (nminus (Fin 1) (Fin (delta s)))))"

subsection \<open>Loop invariants\<close>

text \<open>After the first \<open>k\<close> cells of a pass over the state \<open>s\<close>: the pass has changed
  only its own buffers, the first \<open>k\<close> cells hold their results and the others are as they
  were.\<close>

definition agg_upto :: "kernel \<Rightarrow> int \<Rightarrow> kernel \<Rightarrow> bool" where
  "agg_upto s k t \<longleftrightarrow>
     t = s\<lparr>Nsum := Nsum t, Fsum := Fsum t\<rparr> \<and>
     length (Nsum t) = length (Nsum s) \<and> length (Fsum t) = length (Fsum s) \<and>
     (\<forall>i. 0 \<le> i \<and> i < k \<longrightarrow>
        Nsum t ! nat i = to_uint8 (nsum_js (A s) (W s) (H s) (i mod W s) (i div W s)) \<and>
        Fsum t ! nat i = store32 (fsum_js (F s) (W s) (H s) (i mod W s) (i div W s)))"

definition trans_upto :: "kernel \<Rightarrow> int \<Rightarrow> kernel \<Rightarrow> bool" where
  "trans_upto s k t \<longleftrightarrow>
     t = s\<lparr>A2 := A2 t, F := F t\<rparr> \<and>
     length (A2 t) = length (A2 s) \<and> length (F t) = length (F s) \<and>
     (\<forall>i. 0 \<le> i \<and> i < k \<longrightarrow>
        A2 t ! nat i = next_cell s i \<and> F t ! nat i = book_cell s i) \<and>
     (\<forall>i. k \<le> i \<and> i < int (length (F s)) \<longrightarrow> F t ! nat i = F s ! nat i)"

definition diff_upto :: "kernel \<Rightarrow> int \<Rightarrow> kernel \<Rightarrow> bool" where
  "diff_upto s k t \<longleftrightarrow>
     t = s\<lparr>F := F t\<rparr> \<and> length (F t) = length (F s) \<and>
     (\<forall>i. 0 \<le> i \<and> i < k \<longrightarrow>
        F t ! nat i = diff_val s (F s ! nat i) (Fsum s ! nat i)) \<and>
     (\<forall>i. k \<le> i \<and> i < int (length (F s)) \<longrightarrow> F t ! nat i = F s ! nat i)"

text \<open>The rendering loop: the buffer has four bytes per cell, and the cells already
  rendered are opaque.\<close>

definition render_upto :: "kernel \<Rightarrow> int \<Rightarrow> nat list \<Rightarrow> bool" where
  "render_upto s k out \<longleftrightarrow>
     int (length out) = N s * 4 \<and> (\<forall>i. 0 \<le> i \<and> i < k \<longrightarrow> out ! nat (i * 4 + 3) = 255)"

subsection \<open>Parameter messages\<close>

text \<open>A \<open>params\<close> object with no field, and the value a field has after a merge.\<close>

definition no_params :: params where
  "no_params = \<lparr> p_f0 = None, p_tau = None, p_sigma = None, p_alpha = None, p_beta = None,
                  p_kappa = None, p_d = None, p_delta = None, p_w0 = None \<rparr>"

definition pick :: "'a \<Rightarrow> 'a option \<Rightarrow> 'a" where
  "pick old x = (case x of None \<Rightarrow> old | Some v \<Rightarrow> v)"

subsection \<open>Example states and runs\<close>

text \<open>A 3 by 3 grid whose top row is alive, on uniform soil, with parameters that are
  binary fractions.\<close>

definition ex_grid :: kernel where
  "ex_grid = boot\<lparr> initialized := True, W := 3, H := 3, N := 9,
       A := [1, 1, 1, 0, 0, 0, 0, 0, 0], F := replicate 9 (Fin (3 / 4)),
       A2 := replicate 9 0, Fsum := replicate 9 (Fin 0), Nsum := replicate 9 0,
       f0 := 3 / 4, tau := 1 / 2, sigma := 1 / 8, alpha := 1, beta := 1 / 4,
       kappa := 1 / 32, d := 1 / 4, delta := 1 / 128, w0 := 1 / 2, w1 := 1 / 2 \<rparr>"

text \<open>The same grid with a single live cell, at the centre, on soil of fertility
  \<open>2^24\<close> there and 0 elsewhere; and with no live cell, uniform fertility 1 and the
  decay \<open>2^-30\<close>.\<close>

definition ex_big :: kernel where
  "ex_big = ex_grid\<lparr> A := [0, 0, 0, 0, 1, 0, 0, 0, 0],
       F := (replicate 9 (Fin 0))[4 := Fin 16777216] \<rparr>"

definition ex_dec :: kernel where
  "ex_dec = ex_grid\<lparr> A := replicate 9 0, F := replicate 9 (Fin 1), delta := 1 / 2 ^ 30 \<rparr>"

text \<open>The grid \<open>ex_grid\<close> with barren soil but for the centre, of fertility 3, with
  \<open>w0\<close> the float64 nearest to 0.1 and the threshold \<open>tau\<close> the float64 product
  \<open>3 * w0\<close>, which is 0.30000000000000004.\<close>

definition ex_thr :: kernel where
  "ex_thr = ex_grid\<lparr> F := (replicate 9 (Fin 0))[4 := Fin 3],
       tau := r64 (3 * r64 (1 / 10)), w0 := r64 (1 / 10), w1 := r64 (1 - r64 (1 / 10)) \<rparr>"

text \<open>Two grids with a single live cell, at (0,0): 2 by 2 and 4 by 4.\<close>

definition ex_two :: kernel where
  "ex_two = boot\<lparr> initialized := True, W := 2, H := 2, N := 4,
       A := [1, 0, 0, 0], F := replicate 4 (Fin (3 / 4)),
       A2 := replicate 4 0, Fsum := replicate 4 (Fin 0), Nsum := replicate 4 0 \<rparr>"

definition ex_one :: kernel where
  "ex_one = boot\<lparr> initialized := True, W := 4, H := 4, N := 16,
       A := (replicate 16 0)[0 := 1], F := replicate 16 (Fin (3 / 4)),
       A2 := replicate 16 0, Fsum := replicate 16 (Fin 0), Nsum := replicate 16 0 \<rparr>"

text \<open>A run that ends with negative fertility: a 1 by 1 grid, \<open>f0\<close> set to -1, reset.
  A run that ends with a fertility that is not a number: \<open>alpha\<close> set to \<open>2^130\<close>, a 1
  by 1 grid with its cell alive, one tick.\<close>

definition neg_f0_run :: "msg list" where
  "neg_f0_run = [Init 1 1, SetParams (no_params\<lparr>p_f0 := Some (- 1)\<rparr>), Reset]"

definition nan_run :: "msg list" where
  "nan_run = [SetParams (no_params\<lparr>p_f0 := Some (1 / 2), p_alpha := Some (2 ^ 130),
                                    p_d := Some (1 / 4)\<rparr>),
              Init 1 1, SetCell 0 0 True, Step]"

text \<open>The worker after a first \<open>init\<close> with the default parameters, and after a second
  \<open>init\<close> that failed.\<close>

definition ready1 :: kernel where
  "ready1 = run boot [Init 1 1]"


section \<open>Properties\<close>

subsection \<open>Loops\<close>

lemma for_loop_neg: "n \<le> 0 \<Longrightarrow> for_loop n body s = s"
  by (simp add: for_loop_def)

lemma for_loop_Suc: "0 \<le> n \<Longrightarrow> for_loop (n + 1) body s = body n (for_loop n body s)"
proof -
  assume "0 \<le> n"
  then have "[0..n + 1 - 1] = [0..n - 1] @ [n]"
    using upto_rec2[of 0 n] by simp
  then show ?thesis by (simp add: for_loop_def)
qed

lemma for_loop_prefix:
  assumes base: "P 0 s"
    and stp: "\<And>i t. 0 \<le> i \<Longrightarrow> i < n \<Longrightarrow> P i t \<Longrightarrow> P (i + 1) (body i t)"
  shows "0 \<le> k \<Longrightarrow> k \<le> n \<Longrightarrow> P k (for_loop k body s)"
proof (induction k rule: int_ge_induct)
  case base
  show ?case using assms(1) by (simp add: for_loop_neg)
next
  case (step i)
  then have "P i (for_loop i body s)" by simp
  with step show ?case using stp[of i "for_loop i body s"] by (simp add: for_loop_Suc)
qed

lemma for_loop_rule:
  assumes "P 0 s"
    and "\<And>i t. 0 \<le> i \<Longrightarrow> i < n \<Longrightarrow> P i t \<Longrightarrow> P (i + 1) (body i t)"
  shows "P (max 0 n) (for_loop n body s)"
proof (cases "0 \<le> n")
  case True
  then show ?thesis using for_loop_prefix[of P s n body n] assms by (simp add: max_def)
next
  case False
  then show ?thesis using assms(1) by (simp add: for_loop_neg max_def)
qed

subsection \<open>Rounding\<close>

text \<open>The exponent of a number between two consecutive powers of 2, and the rounding of
  such a number.\<close>

lemma expo_eq: "2 powi e \<le> \<bar>x\<bar> \<Longrightarrow> \<bar>x\<bar> < 2 powi (e + 1) \<Longrightarrow> expo x = e"
proof -
  assume a: "2 powi e \<le> \<bar>x\<bar>" and b: "\<bar>x\<bar> < 2 powi (e + 1)"
  have p: "0 < \<bar>x\<bar>" using a by (smt (verit) zero_less_power_int)
  have "(2::real) powr (of_int e) = 2 powi e" "(2::real) powr (of_int e + 1) = 2 powi (e + 1)"
    using powr_real_of_int'[of 2 e] powr_real_of_int'[of 2 "e + 1"] by simp_all
  thus ?thesis unfolding expo_def using a b p
    by (simp add: floor_log_eq_powr_iff)
qed

lemma expo_less:
  assumes "x \<noteq> 0" "\<bar>x\<bar> < 2 powi n"
  shows "expo x < n"
proof -
  have "(2::real) powr (of_int n) = 2 powi n" using powr_real_of_int'[of 2 n] by simp
  hence "log 2 \<bar>x\<bar> < of_int n" using assms by (simp add: log_less_iff)
  thus ?thesis unfolding expo_def by (simp add: floor_less_iff)
qed

lemma round_half_even_int: "round_half_even (of_int m) = m"
  by (simp add: round_half_even_def)

lemma rnd_val_at:
  "x \<noteq> 0 \<Longrightarrow> 2 powi e \<le> \<bar>x\<bar> \<Longrightarrow> \<bar>x\<bar> < 2 powi (e + 1) \<Longrightarrow>
   rnd_val p emin x =
     of_int (round_half_even (x / 2 powi (max emin e - int p + 1))) *
       2 powi (max emin e - int p + 1)"
  by (simp add: rnd_val_def ulp_def expo_eq)

text \<open>A number \<open>m / 2 ^ k\<close> with \<open>\<bar>m\<bar> < 2 ^ p\<close> and a moderate \<open>k\<close> is representable: rounding
  leaves it as it is.\<close>

lemma rnd_val_dyadic:
  assumes m: "\<bar>m\<bar> < 2 ^ p" and k: "int k \<le> int p - 1 - emin"
  shows "rnd_val p emin (of_int m / 2 ^ k) = of_int m / 2 ^ k"
proof (cases "m = 0")
  case True thus ?thesis by (simp add: rnd_val_def)
next
  case False
  define x :: real where "x = of_int m / 2 ^ k"
  have x0: "x \<noteq> 0" using False by (simp add: x_def)
  have "\<bar>x\<bar> = of_int \<bar>m\<bar> / 2 ^ k" by (simp add: x_def)
  also have "\<dots> < 2 ^ p / 2 ^ k"
  proof -
    have "(of_int \<bar>m\<bar> :: real) < of_int (2 ^ p)" using m by (simp only: of_int_less_iff)
    thus ?thesis by (simp add: divide_strict_right_mono)
  qed
  also have "\<dots> = 2 powi (int p - int k)" by (simp add: power_int_diff)
  finally have "expo x < int p - int k" using x0 by (rule expo_less[rotated])
  hence j0: "0 \<le> int p - 1 - int k - max emin (expo x)" using k by simp
  define j where "j = nat (int p - 1 - int k - max emin (expo x))"
  have E: "max emin (expo x) - int p + 1 = - int (k + j)" using j0 by (simp add: j_def)
  have u: "ulp p emin x = 1 / 2 ^ (k + j)"
    unfolding ulp_def E by (simp only: power_int_minus power_int_of_nat inverse_eq_divide)
  have q: "x / ulp p emin x = of_int (m * 2 ^ j)"
    unfolding u by (simp add: x_def power_add)
  have r: "round_half_even (x / ulp p emin x) = m * 2 ^ j"
    by (simp only: q round_half_even_int)
  have "rnd_val p emin x = of_int (round_half_even (x / ulp p emin x)) * ulp p emin x"
    using x0 by (simp add: rnd_val_def)
  also have "\<dots> = of_int (m * 2 ^ j) * ulp p emin x"
    by (simp only: r)
  also have "\<dots> = of_int (m * 2 ^ j) * (1 / 2 ^ (k + j))"
    by (simp only: u)
  also have "\<dots> = x" by (simp add: x_def power_add)
  finally show ?thesis by (simp add: x_def)
qed

lemma rnd_dyadic:
  assumes m: "\<bar>m\<bar> < 2 ^ p" and k: "int k \<le> int p - 1 - emin" and e: "int p - 1 \<le> emax"
  shows "rnd p emin emax (of_int m / 2 ^ k) = Fin (of_int m / 2 ^ k)"
proof -
  have "\<bar>of_int m / 2 ^ k :: real\<bar> \<le> of_int \<bar>m\<bar>" by (simp add: divide_le_eq mult_le_cancel_left1)
  also have "\<dots> \<le> 2 ^ p - 1"
  proof -
    have "\<bar>m\<bar> \<le> 2 ^ p - 1" using m by simp
    hence "(of_int \<bar>m\<bar> :: real) \<le> of_int (2 ^ p - 1)" by (simp only: of_int_le_iff)
    thus ?thesis by simp
  qed
  also have "\<dots> \<le> (2 ^ p - 1) * 2 powi (emax - int p + 1)"
  proof -
    have "(1::real) \<le> 2 powi (emax - int p + 1)" using e by (intro one_le_power_int) simp_all
    from mult_left_mono[OF this, of "2 ^ p - 1"] show ?thesis by simp
  qed
  finally show ?thesis by (simp add: rnd_def rnd_val_dyadic[OF m k])
qed

lemma f64_dyadic:
  "\<bar>m\<bar> < 2 ^ 53 \<Longrightarrow> k \<le> 1074 \<Longrightarrow> f64 (of_int m / 2 ^ k) = Fin (of_int m / 2 ^ k)"
  unfolding f64_def by (rule rnd_dyadic) simp_all

lemma f32_dyadic:
  "\<bar>m\<bar> < 2 ^ 24 \<Longrightarrow> k \<le> 149 \<Longrightarrow> f32 (of_int m / 2 ^ k) = Fin (of_int m / 2 ^ k)"
  unfolding f32_def by (rule rnd_dyadic) simp_all

lemma r64_dyadic:
  "\<bar>m\<bar> < 2 ^ 53 \<Longrightarrow> k \<le> 1074 \<Longrightarrow> r64 (of_int m / 2 ^ k) = of_int m / 2 ^ k"
  unfolding r64_def by (rule rnd_val_dyadic) simp_all

lemma f64_zero: "f64 0 = Fin 0"
  by (simp add: f64_def rnd_def rnd_val_def)

lemma f32_zero: "f32 0 = Fin 0"
  by (simp add: f32_def rnd_def rnd_val_def)

lemma f64_nat: "n < 2 ^ 53 \<Longrightarrow> f64 (real n) = Fin (real n)"
  using f64_dyadic[of "int n" 0] by simp

lemma nplus_nat:
  "a + b < 2 ^ 53 \<Longrightarrow> nplus (Fin (real a)) (Fin (real b)) = Fin (real (a + b))"
  using f64_nat[of "a + b"] by simp

text \<open>Rounding keeps a number that is negative, and not too small, negative.\<close>

lemma round_half_even_le: "round_half_even q \<le> \<lceil>q\<rceil>"
  unfolding round_half_even_def Let_def by (auto simp: ceiling_def; linarith)

lemma rnd_val_neg:
  assumes "x \<le> - (2 powi (emin - int p + 1))" and "0 < p"
  shows "rnd_val p emin x < 0"
proof -
  have x0: "x < 0" using assms(1) by (smt (verit) zero_less_power_int)
  have u0: "0 < ulp p emin x" by (simp add: ulp_def)
  have "ulp p emin x \<le> \<bar>x\<bar>"
  proof (cases "expo x \<le> emin")
    case True
    then show ?thesis using assms(1) x0 by (simp add: ulp_def max_def)
  next
    case False
    have "2 powi (expo x) \<le> \<bar>x\<bar>"
    proof -
      have "of_int (expo x) \<le> log 2 \<bar>x\<bar>" unfolding expo_def by simp
      hence "2 powr (of_int (expo x)) \<le> \<bar>x\<bar>" using x0 by (simp add: le_log_iff)
      thus ?thesis using powr_real_of_int'[of 2 "expo x"] by simp
    qed
    moreover have "(2::real) powi (expo x - int p + 1) \<le> 2 powi (expo x)"
      using assms(2) by (intro power_int_increasing) simp_all
    ultimately show ?thesis using False by (simp add: ulp_def max_def)
  qed
  hence "x / ulp p emin x \<le> - 1" using x0 u0 by (simp add: field_simps)
  hence "\<lceil>x / ulp p emin x\<rceil> \<le> - 1" by (simp add: ceiling_le_iff)
  hence "round_half_even (x / ulp p emin x) \<le> - 1"
    using round_half_even_le[of "x / ulp p emin x"] by linarith
  hence "(of_int (round_half_even (x / ulp p emin x)) :: real) \<le> - 1"
    by (metis of_int_le_iff of_int_minus of_int_1)
  hence "of_int (round_half_even (x / ulp p emin x)) * ulp p emin x < 0"
    using u0 by (simp add: mult_neg_pos)
  thus ?thesis using x0 by (simp add: rnd_val_def)
qed

lemma f32_neg:
  assumes "c \<le> - (1 / 2 ^ 149)"
  shows "f32 c = NInf \<or> (\<exists>r. r < 0 \<and> f32 c = Fin r)"
proof -
  have "(2::real) powi (- 126 - int 24 + 1) = 1 / 2 ^ 149"
    by (simp add: power_int_minus_left)
  hence "rnd_val 24 (- 126) c < 0" using rnd_val_neg[of c "- 126" 24] assms by simp
  moreover have "c < 0" using assms by (smt (verit) divide_pos_pos zero_less_power)
  ultimately show ?thesis by (simp add: f32_def rnd_def Let_def)
qed

subsection \<open>Typed arrays\<close>

lemma rd8_in: "0 \<le> p \<Longrightarrow> p < int (length xs) \<Longrightarrow> rd8 xs p = Fin (real (xs ! nat p))"
  by (simp add: rd8_def)

lemma rdf_in: "0 \<le> p \<Longrightarrow> p < int (length xs) \<Longrightarrow> rdf xs p = xs ! nat p"
  by (simp add: rdf_def)

lemma to_uint8_nat: "to_uint8 (Fin (real k)) = k mod 256"
proof -
  have "nat (int k mod 256) = k mod 256"
    by (simp add: nat_mod_distrib)
  then show ?thesis by simp
qed

lemma wr_length: "length (wr xs i v) = length xs"
  by (simp add: wr_def)

lemma wr_nth: "0 \<le> i \<Longrightarrow> i < int (length xs) \<Longrightarrow> wr xs i v ! nat i = v"
  by (simp add: wr_def)

lemma wr_nth_other: "0 \<le> k \<Longrightarrow> k \<noteq> i \<Longrightarrow> wr xs i v ! nat k = xs ! nat k"
  by (auto simp: wr_def)

lemma nat_neq: "0 \<le> i \<Longrightarrow> 0 \<le> k \<Longrightarrow> i \<noteq> k \<Longrightarrow> nat i \<noteq> nat k"
  by simp

subsection \<open>The aggregation pass\<close>

lemma wrap_dec: "0 \<le> x \<Longrightarrow> x < w \<Longrightarrow> (if x = 0 then w - 1 else x - 1) = (x - 1) mod (w::int)"
  by (auto simp: zmod_minus1)

lemma wrap_inc: "0 \<le> x \<Longrightarrow> x < w \<Longrightarrow> (if x = w - 1 then 0 else x + 1) = (x + 1) mod (w::int)"
  by auto

lemma cell_index_range:
  assumes "0 \<le> x" "x < w" "0 \<le> y" "y < (h::int)"
  shows "0 \<le> y * w + x" and "y * w + x < w * h"
proof -
  show "0 \<le> y * w + x" using assms by simp
  have "y + 1 \<le> h" using assms by simp
  then have "(y + 1) * w \<le> h * w" using assms by (intro mult_right_mono) auto
  then show "y * w + x < w * h" using assms by (simp add: algebra_simps)
qed

lemma agg_cell_torus:
  assumes wh: "0 \<le> x" "x < W t" "0 \<le> y" "y < H t"
  shows "agg_cell y x t =
           t\<lparr>Nsum := wr (Nsum t) (y * W t + x) (to_uint8 (nsum_js (A t) (W t) (H t) x y)),
             Fsum := wr (Fsum t) (y * W t + x) (store32 (fsum_js (F t) (W t) (H t) x y))\<rparr>"
proof -
  define xl where "xl = (x - 1) mod W t"
  define xr where "xr = (x + 1) mod W t"
  define yu where "yu = (y - 1) mod H t"
  define yd where "yd = (y + 1) mod H t"
  have e: "(if x = 0 then W t - 1 else x - 1) = xl" "(if x = W t - 1 then 0 else x + 1) = xr"
     "(if y = 0 then H t - 1 else y - 1) = yu" "(if y = H t - 1 then 0 else y + 1) = yd"
    using wrap_dec[of x "W t"] wrap_inc[of x "W t"] wrap_dec[of y "H t"] wrap_inc[of y "H t"] wh
    by (simp_all add: xl_def xr_def yu_def yd_def)
  have m: "x mod W t = x" "y mod H t = y" using wh by simp_all
  have n: "nplus (nplus (nplus (nplus (nplus (nplus (nplus
                (rd8 (A t) (yu * W t + xl)) (rd8 (A t) (yu * W t + x))) (rd8 (A t) (yu * W t + xr)))
                (rd8 (A t) (y * W t + xl)))
                (rd8 (A t) (y * W t + xr))) (rd8 (A t) (yd * W t + xl))) (rd8 (A t) (yd * W t + x)))
                (rd8 (A t) (yd * W t + xr)) = nsum_js (A t) (W t) (H t) x y"
    by (simp add: nsum_js_def torus_nbrs_def m xl_def[symmetric] xr_def[symmetric]
        yu_def[symmetric] yd_def[symmetric])
  have f: "nplus (nplus (nplus (nplus (nplus (nplus (nplus
                (rdf (F t) (yu * W t + xl)) (rdf (F t) (yu * W t + x))) (rdf (F t) (yu * W t + xr)))
                (rdf (F t) (y * W t + xl)))
                (rdf (F t) (y * W t + xr))) (rdf (F t) (yd * W t + xl))) (rdf (F t) (yd * W t + x)))
                (rdf (F t) (yd * W t + xr)) = fsum_js (F t) (W t) (H t) x y"
    by (simp add: fsum_js_def torus_nbrs_def m xl_def[symmetric] xr_def[symmetric]
        yu_def[symmetric] yd_def[symmetric])
  show ?thesis
    unfolding agg_cell_def Let_def idx_def e
    by (simp add: n f)
qed

lemma agg_upto_cell:
  assumes g: "grid_ok s"
    and xy: "0 \<le> x" "x < W s" "0 \<le> y" "y < H s"
    and inv: "agg_upto s (y * W s + x) t"
  shows "agg_upto s (y * W s + x + 1) (agg_cell y x t)"
proof -
  define nv where "nv = to_uint8 (nsum_js (A s) (W s) (H s) x y)"
  define fv where "fv = store32 (fsum_js (F s) (W s) (H s) x y)"
  from inv have t: "t = s\<lparr>Nsum := Nsum t, Fsum := Fsum t\<rparr>"
    and ln: "length (Nsum t) = length (Nsum s)" and lf: "length (Fsum t) = length (Fsum s)"
    and old: "\<And>i. 0 \<le> i \<Longrightarrow> i < y * W s + x \<Longrightarrow>
        Nsum t ! nat i = to_uint8 (nsum_js (A s) (W s) (H s) (i mod W s) (i div W s)) \<and>
        Fsum t ! nat i = store32 (fsum_js (F s) (W s) (H s) (i mod W s) (i div W s))"
    by (simp_all add: agg_upto_def)
  have same: "A t = A s" "F t = F s" "W t = W s" "H t = H s"
    by (subst t, simp)+
  have lens: "int (length (Nsum s)) = W s * H s" "int (length (Fsum s)) = W s * H s"
    using g by (auto simp: grid_ok_def)
  have rng: "0 \<le> y * W s + x" "y * W s + x < W s * H s"
    using cell_index_range[OF xy] by simp_all
  have step: "agg_cell y x t =
           t\<lparr>Nsum := (Nsum t)[nat (y * W s + x) := nv], Fsum := (Fsum t)[nat (y * W s + x) := fv]\<rparr>"
    using agg_cell_torus[of x t y] xy lens rng ln lf
    by (simp add: same wr_def nv_def fv_def)
  have dm: "(y * W s + x) mod W s = x" "(y * W s + x) div W s = y"
    using xy by simp_all
  have inr: "nat (y * W s + x) < length (Nsum t)" "nat (y * W s + x) < length (Fsum t)"
    using rng lens ln lf by linarith+
  show ?thesis
    unfolding agg_upto_def step
  proof (intro conjI allI impI)
    show "t\<lparr>Nsum := (Nsum t)[nat (y * W s + x) := nv], Fsum := (Fsum t)[nat (y * W s + x) := fv]\<rparr> =
          s\<lparr>Nsum := Nsum (t\<lparr>Nsum := (Nsum t)[nat (y * W s + x) := nv],
                              Fsum := (Fsum t)[nat (y * W s + x) := fv]\<rparr>),
            Fsum := Fsum (t\<lparr>Nsum := (Nsum t)[nat (y * W s + x) := nv],
                              Fsum := (Fsum t)[nat (y * W s + x) := fv]\<rparr>)\<rparr>"
      by (subst t) simp
  next
    fix i assume i: "0 \<le> i \<and> i < y * W s + x + 1"
    show "Nsum (t\<lparr>Nsum := (Nsum t)[nat (y * W s + x) := nv],
                   Fsum := (Fsum t)[nat (y * W s + x) := fv]\<rparr>) ! nat i =
          to_uint8 (nsum_js (A s) (W s) (H s) (i mod W s) (i div W s))"
    proof (cases "i = y * W s + x")
      case True
      then show ?thesis using inr xy by (simp add: dm nv_def)
    next
      case False
      then have "nat i \<noteq> nat (y * W s + x)" using i rng by linarith
      then show ?thesis using old[of i] i False by simp
    qed
    show "Fsum (t\<lparr>Nsum := (Nsum t)[nat (y * W s + x) := nv],
                   Fsum := (Fsum t)[nat (y * W s + x) := fv]\<rparr>) ! nat i =
          store32 (fsum_js (F s) (W s) (H s) (i mod W s) (i div W s))"
    proof (cases "i = y * W s + x")
      case True
      then show ?thesis using inr xy by (simp add: dm fv_def)
    next
      case False
      then have "nat i \<noteq> nat (y * W s + x)" using i rng by linarith
      then show ?thesis using old[of i] i False by simp
    qed
  qed (simp_all add: ln lf)
qed

lemma agg_upto_row:
  assumes g: "grid_ok s"
    and y: "0 \<le> y" "y < H s"
    and inv: "agg_upto s (y * W s) t"
  shows "agg_upto s ((y + 1) * W s) (for_loop (W s) (agg_cell y) t)"
proof -
  have "agg_upto s (y * W s + max 0 (W s)) (for_loop (W s) (agg_cell y) t)"
  proof (rule for_loop_rule[where P = "\<lambda>x u. agg_upto s (y * W s + x) u"])
    show "agg_upto s (y * W s + 0) t" using inv by simp
  next
    fix i u assume "0 \<le> i" "i < W s" "agg_upto s (y * W s + i) u"
    then show "agg_upto s (y * W s + (i + 1)) (agg_cell y i u)"
      using agg_upto_cell[OF g _ _ y, of i u] by (simp add: add.assoc)
  qed
  moreover have "0 < W s" using g by (simp add: grid_ok_def)
  ultimately show ?thesis by (simp add: algebra_simps max_def)
qed

lemma aggregate_upto:
  assumes g: "grid_ok s"
  shows "agg_upto s (N s) (aggregate s)"
proof -
  have "agg_upto s (max 0 (H s) * W s) (for_loop (H s) (\<lambda>y. for_loop (W s) (agg_cell y)) s)"
  proof (rule for_loop_rule[where P = "\<lambda>y u. agg_upto s (y * W s) u"])
    show "agg_upto s (0 * W s) s" by (auto simp: agg_upto_def)
  next
    fix i u assume "0 \<le> i" "i < H s" "agg_upto s (i * W s) u"
    then show "agg_upto s ((i + 1) * W s) (for_loop (W s) (agg_cell i) u)"
      using agg_upto_row[OF g] by simp
  qed
  moreover have "0 < H s" "N s = W s * H s" using g by (simp_all add: grid_ok_def)
  ultimately show ?thesis by (simp add: aggregate_def max_def mult.commute)
qed

lemma aggregate_facts:
  assumes g: "grid_ok s"
  shows "aggregate s = s\<lparr>Nsum := Nsum (aggregate s), Fsum := Fsum (aggregate s)\<rparr>"
    and "grid_ok (aggregate s)"
    and "\<And>i. 0 \<le> i \<Longrightarrow> i < N s \<Longrightarrow>
          Nsum (aggregate s) ! nat i =
            to_uint8 (nsum_js (A s) (W s) (H s) (i mod W s) (i div W s))"
    and "\<And>i. 0 \<le> i \<Longrightarrow> i < N s \<Longrightarrow>
          Fsum (aggregate s) ! nat i =
            store32 (fsum_js (F s) (W s) (H s) (i mod W s) (i div W s))"
proof -
  note u = aggregate_upto[OF g, unfolded agg_upto_def]
  show e: "aggregate s = s\<lparr>Nsum := Nsum (aggregate s), Fsum := Fsum (aggregate s)\<rparr>"
    using u by simp
  have same: "W (aggregate s) = W s" "H (aggregate s) = H s" "N (aggregate s) = N s"
    "A (aggregate s) = A s" "F (aggregate s) = F s" "A2 (aggregate s) = A2 s"
    by (subst e, simp)+
  show "grid_ok (aggregate s)"
    using g u by (simp add: grid_ok_def same)
  show "\<And>i. 0 \<le> i \<Longrightarrow> i < N s \<Longrightarrow>
          Nsum (aggregate s) ! nat i =
            to_uint8 (nsum_js (A s) (W s) (H s) (i mod W s) (i div W s))"
    using u by simp
  show "\<And>i. 0 \<le> i \<Longrightarrow> i < N s \<Longrightarrow>
          Fsum (aggregate s) ! nat i =
            store32 (fsum_js (F s) (W s) (H s) (i mod W s) (i div W s))"
    using u by simp
qed

lemma index_zero:
  assumes "0 \<le> a" "0 \<le> b" "0 < (w::int)"
  shows "b * w + a = 0 \<longleftrightarrow> a = 0 \<and> b = 0"
proof
  assume e: "b * w + a = 0"
  have "0 \<le> b * w" using assms by simp
  with e assms have "a = 0" "b * w = 0" by linarith+
  with assms show "a = 0 \<and> b = 0" by simp
qed simp

lemma mod_dec_zero: "0 \<le> x \<Longrightarrow> x < w \<Longrightarrow> 3 \<le> w \<Longrightarrow> (x - 1) mod w = 0 \<longleftrightarrow> x = (1::int)"
  using wrap_dec[of x w] by (auto split: if_splits)

lemma mod_inc_zero: "0 \<le> x \<Longrightarrow> x < w \<Longrightarrow> 3 \<le> w \<Longrightarrow> (x + 1) mod w = 0 \<longleftrightarrow> x = w - (1::int)"
  using wrap_inc[of x w] by (auto split: if_splits)

lemma torus_nbrs_range:
  assumes "0 < w" "0 < h" "p \<in> set (torus_nbrs w h x y)"
  shows "0 \<le> p \<and> p < w * h"
proof -
  have "\<And>a b. 0 \<le> b mod h * w + a mod w \<and> b mod h * w + a mod w < w * h"
    using cell_index_range[of "a mod w" w "b mod h" h for a b] assms(1,2) by simp
  then show ?thesis using assms(3) by (auto simp: torus_nbrs_def)
qed

lemma live_count_le:
  assumes "binary cells" "0 < w" "0 < h" "int (length cells) = w * h"
  shows "live_count cells w h x y \<le> 8"
proof -
  have "\<And>p. p \<in> set (torus_nbrs w h x y) \<Longrightarrow> cells ! nat p \<le> 1"
  proof -
    fix p assume "p \<in> set (torus_nbrs w h x y)"
    then have "0 \<le> p \<and> p < w * h" using torus_nbrs_range assms by blast
    then have "nat p < length cells" using assms(4) by linarith
    then show "cells ! nat p \<le> 1" using assms(1) by (simp add: binary_def)
  qed
  then have "sum_list (map (\<lambda>p. cells ! nat p) (torus_nbrs w h x y))
      \<le> sum_list (map (\<lambda>p. 1) (torus_nbrs w h x y))"
    by (intro sum_list_mono) auto
  also have "\<dots> = 8" by (simp add: torus_nbrs_def)
  finally show ?thesis by (simp add: live_count_def)
qed

text \<open>The float64 sum of the eight neighbouring liveness values is their exact sum.\<close>

lemma foldl_nplus_nat:
  "a + sum_list bs < 2 ^ 53 \<Longrightarrow>
   foldl nplus (Fin (real a)) (map (\<lambda>b. Fin (real b)) bs) = Fin (real (a + sum_list bs))"
proof (induction bs arbitrary: a)
  case Nil
  then show ?case by simp
next
  case (Cons b bs)
  have "nplus (Fin (real a)) (Fin (real b)) = Fin (real (a + b))"
    using Cons.prems by (intro nplus_nat) simp
  moreover have "foldl nplus (Fin (real (a + b))) (map (\<lambda>b. Fin (real b)) bs) =
      Fin (real (a + b + sum_list bs))"
    using Cons.prems by (intro Cons.IH) simp
  ultimately show ?case by (simp add: add.assoc del: nplus.simps)
qed

lemma nsum_js_count:
  assumes "binary cells" "0 < w" "0 < h" "int (length cells) = w * h"
  shows "nsum_js cells w h x y = Fin (real (live_count cells w h x y))"
    and "to_uint8 (nsum_js cells w h x y) = live_count cells w h x y"
proof -
  define ps where "ps = torus_nbrs w h x y"
  have ne: "ps \<noteq> []" by (simp add: ps_def torus_nbrs_def)
  have r: "\<And>p. p \<in> set ps \<Longrightarrow> rd8 cells p = Fin (real (cells ! nat p))"
    using torus_nbrs_range[OF assms(2,3)] assms(4) by (simp add: ps_def rd8_in)
  have le: "live_count cells w h x y \<le> 8" using live_count_le[OF assms] .
  have lc: "live_count cells w h x y = cells ! nat (hd ps) + sum_list (map (\<lambda>p. cells ! nat p) (tl ps))"
    using ne by (cases ps) (simp_all add: live_count_def ps_def[symmetric])
  have m1: "map (rd8 cells) (tl ps) = map (\<lambda>b. Fin (real b)) (map (\<lambda>p. cells ! nat p) (tl ps))"
    using r ne by (simp add: list.set_sel(2))
  have m2: "rd8 cells (hd ps) = Fin (real (cells ! nat (hd ps)))"
    using r ne by simp
  have "nsum_js cells w h x y = foldl nplus (rd8 cells (hd ps)) (map (rd8 cells) (tl ps))"
    by (simp add: nsum_js_def ps_def[symmetric])
  also have "\<dots> = foldl nplus (Fin (real (cells ! nat (hd ps))))
        (map (\<lambda>b. Fin (real b)) (map (\<lambda>p. cells ! nat p) (tl ps)))"
    by (simp only: m1 m2)
  also have "\<dots> = Fin (real (cells ! nat (hd ps) + sum_list (map (\<lambda>p. cells ! nat p) (tl ps))))"
    using le lc by (intro foldl_nplus_nat) simp
  finally show n: "nsum_js cells w h x y = Fin (real (live_count cells w h x y))"
    using lc by simp
  show "to_uint8 (nsum_js cells w h x y) = live_count cells w h x y"
    unfolding n to_uint8_nat using le by simp
qed

subsection \<open>The transition pass\<close>

lemma rule_next_01: "rule_next s a n E = 0 \<or> rule_next s a n E = 1"
  by (simp add: rule_next_def)

lemma rule_next_1: "rule_next s a n E = 1 \<Longrightarrow> a = 0 \<or> a = 1"
  unfolding rule_next_def by (meson zero_neq_one)

lemma trans_cell_eq:
  assumes i: "0 \<le> i" "i < N u" and b: "bufs_ok u"
  shows "trans_cell i (u, al) =
           (u\<lparr>A2 := (A2 u)[nat i := next_cell u i],
              F := (F u)[nat i := book_cell u i]\<rparr>, al + next_cell u i)"
proof -
  have r: "i < int (length (A u))" "i < int (length (F u))" "i < int (length (A2 u))"
    "i < int (length (Fsum u))" "i < int (length (Nsum u))"
    using i b by (simp_all add: bufs_ok_def)
  have rf: "rdf (F u) i = F u ! nat i" "rdf (Fsum u) i = Fsum u ! nat i"
    using rdf_in i r by simp_all
  have ra: "rd8 (A u) i = Fin (real (A u ! nat i))" "rd8 (Nsum u) i = Fin (real (Nsum u ! nat i))"
    using i r by (simp_all add: rd8_in)
  have nxt: "(if (rd8 (A u) i = Fin 0 \<and> rd8 (Nsum u) i = Fin 3 \<and>
            nge (nplus (ntimes (Fin (w0 u)) (rdf (F u) i))
                   (ntimes (Fin (w1 u)) (ntimes (rdf (Fsum u) i) (Fin (1 / 8))))) (Fin (tau u))) \<or>
           (rd8 (A u) i = Fin 1 \<and> (rd8 (Nsum u) i = Fin 2 \<or> rd8 (Nsum u) i = Fin 3) \<and>
            nge (nplus (ntimes (Fin (w0 u)) (rdf (F u) i))
                   (ntimes (Fin (w1 u)) (ntimes (rdf (Fsum u) i) (Fin (1 / 8))))) (Fin (sigma u)))
        then 1 else 0 :: nat) = next_cell u i"
    by (simp add: rf ra next_cell_def rule_next_def eff_def)
  have nx01: "next_cell u i = 0 \<or> next_cell u i = 1"
    unfolding next_cell_def by (rule rule_next_01)
  have nx1: "next_cell u i = 1 \<Longrightarrow> A u ! nat i = 0 \<or> A u ! nat i = 1"
    unfolding next_cell_def by (rule rule_next_1)
  have wrs: "\<And>v. wr (F u) i v = (F u)[nat i := v]" "\<And>v. wr (A2 u) i v = (A2 u)[nat i := v]"
    using i r by (simp_all add: wr_def)
  have inr: "nat i < length (F u)" using i r by linarith
  have rf2: "\<And>v. rdf ((F u)[nat i := v]) i = v"
    using i r by (simp add: rdf_def)
  consider (birth) "next_cell u i = 1" "A u ! nat i = 0"
    | (survive) "next_cell u i = 1" "A u ! nat i = 1"
    | (death) "next_cell u i = 0" "A u ! nat i = 1"
    | (stay) "next_cell u i = 0" "A u ! nat i \<noteq> 1"
    using nx01 nx1 by metis
  then show ?thesis
  proof cases
    case birth
    then show ?thesis
      unfolding trans_cell_def prod.case Let_def nxt
      by (simp add: ra rf wrs book_cell_def book_def)
  next
    case survive
    then show ?thesis
      unfolding trans_cell_def prod.case Let_def nxt
      by (simp add: ra rf wrs book_cell_def book_def)
  next
    case death
    then show ?thesis
      unfolding trans_cell_def prod.case Let_def nxt
      by (simp add: ra rf wrs book_cell_def book_def)
  next
    case stay
    then show ?thesis
      unfolding trans_cell_def prod.case Let_def nxt
      by (simp add: ra rf wrs book_cell_def book_def)
  qed
qed

lemma next_cell_cong:
  "t = s\<lparr>A2 := a2, F := f\<rparr> \<Longrightarrow> f ! nat i = F s ! nat i \<Longrightarrow> next_cell t i = next_cell s i"
  by (simp add: next_cell_def rule_next_def eff_def)

lemma book_cell_cong:
  "t = s\<lparr>A2 := a2, F := f\<rparr> \<Longrightarrow> f ! nat i = F s ! nat i \<Longrightarrow> book_cell t i = book_cell s i"
  by (simp add: book_cell_def book_def next_cell_def rule_next_def eff_def)

lemma trans_upto_cell:
  assumes b: "bufs_ok s"
    and k: "0 \<le> k" "k < N s"
    and inv: "trans_upto s k (fst ta)"
  shows "trans_upto s (k + 1) (fst (trans_cell k ta))"
proof -
  obtain t al where ta: "ta = (t, al)" by (cases ta)
  from inv ta have t: "t = s\<lparr>A2 := A2 t, F := F t\<rparr>"
    and l2: "length (A2 t) = length (A2 s)" and lf: "length (F t) = length (F s)"
    and old: "\<And>i. 0 \<le> i \<Longrightarrow> i < k \<Longrightarrow>
        A2 t ! nat i = next_cell s i \<and> F t ! nat i = book_cell s i"
    and rest: "\<And>i. k \<le> i \<Longrightarrow> i < int (length (F s)) \<Longrightarrow> F t ! nat i = F s ! nat i"
    by (simp_all add: trans_upto_def)
  have same: "N t = N s" "Fsum t = Fsum s" "A t = A s" "Nsum t = Nsum s"
    by (subst t, simp)+
  have bt: "bufs_ok t" using b l2 lf by (simp add: bufs_ok_def same)
  have kr: "k < int (length (F s))" "k < int (length (A2 s))"
    using b k by (simp_all add: bufs_ok_def)
  have fk: "F t ! nat k = F s ! nat k" using rest[of k] kr by simp
  have nc: "next_cell t k = next_cell s k" using next_cell_cong[OF t fk] .
  have bc: "book_cell t k = book_cell s k" using book_cell_cong[OF t fk] .
  have eq: "fst (trans_cell k ta) =
      t\<lparr>A2 := (A2 t)[nat k := next_cell s k], F := (F t)[nat k := book_cell s k]\<rparr>"
    using trans_cell_eq[of k t al] k bt by (simp add: ta same nc bc)
  have inr: "nat k < length (A2 t)" "nat k < length (F t)"
    using kr k l2 lf by linarith+
  show ?thesis
    unfolding trans_upto_def eq
  proof (intro conjI allI impI)
    show "t\<lparr>A2 := (A2 t)[nat k := next_cell s k], F := (F t)[nat k := book_cell s k]\<rparr> =
      s\<lparr>A2 := A2 (t\<lparr>A2 := (A2 t)[nat k := next_cell s k], F := (F t)[nat k := book_cell s k]\<rparr>),
        F := F (t\<lparr>A2 := (A2 t)[nat k := next_cell s k], F := (F t)[nat k := book_cell s k]\<rparr>)\<rparr>"
      by (subst t) simp
  next
    fix i assume i: "0 \<le> i \<and> i < k + 1"
    show "A2 (t\<lparr>A2 := (A2 t)[nat k := next_cell s k],
              F := (F t)[nat k := book_cell s k]\<rparr>) ! nat i = next_cell s i"
    proof (cases "i = k")
      case True
      then show ?thesis using inr by simp
    next
      case False
      then show ?thesis using old[of i] i nat_neq[of i k] k by simp
    qed
    show "F (t\<lparr>A2 := (A2 t)[nat k := next_cell s k],
              F := (F t)[nat k := book_cell s k]\<rparr>) ! nat i = book_cell s i"
    proof (cases "i = k")
      case True
      then show ?thesis using inr by simp
    next
      case False
      then show ?thesis using old[of i] i nat_neq[of i k] k by simp
    qed
  next
    fix i assume i: "k + 1 \<le> i \<and> i < int (length (F s))"
    then have "nat i \<noteq> nat k" using k by linarith
    then show "F (t\<lparr>A2 := (A2 t)[nat k := next_cell s k],
              F := (F t)[nat k := book_cell s k]\<rparr>) ! nat i = F s ! nat i"
      using rest[of i] i by simp
  qed (simp_all add: l2 lf)
qed

lemma transitions_upto:
  assumes b: "bufs_ok s"
  shows "trans_upto s (max 0 (N s)) (fst (transitions s))"
  unfolding transitions_def
proof (rule for_loop_rule[where P = "\<lambda>k ta. trans_upto s k (fst ta)"])
  show "trans_upto s 0 (fst (s, 0::nat))" by (auto simp: trans_upto_def)
next
  fix i and ta :: "kernel \<times> nat" assume "0 \<le> i" "i < N s" "trans_upto s i (fst ta)"
  then show "trans_upto s (i + 1) (fst (trans_cell i ta))"
    using trans_upto_cell[OF b] by simp
qed

lemma next_cell_le: "next_cell s i \<le> 1"
  unfolding next_cell_def
  using rule_next_01[of s "A s ! nat i" "Nsum s ! nat i"
      "eff s (F s ! nat i) (Fsum s ! nat i)"]
  by linarith

subsection \<open>The diffusion pass\<close>

lemma diff_cell_eq:
  assumes "0 \<le> i" "i < int (length (F u))" "i < int (length (Fsum u))"
  shows "diff_cell i u = u\<lparr>F := (F u)[nat i := diff_val u (F u ! nat i) (Fsum u ! nat i)]\<rparr>"
  using assms by (simp add: diff_cell_def rdf_def wr_def diff_val_def)

lemma diff_upto_cell:
  assumes b: "bufs_ok s"
    and k: "0 \<le> k" "k < N s"
    and inv: "diff_upto s k t"
  shows "diff_upto s (k + 1) (diff_cell k t)"
proof -
  define v where "v = diff_val s (F s ! nat k) (Fsum s ! nat k)"
  from inv have t: "t = s\<lparr>F := F t\<rparr>"
    and lf: "length (F t) = length (F s)"
    and old: "\<And>i. 0 \<le> i \<Longrightarrow> i < k \<Longrightarrow>
        F t ! nat i = diff_val s (F s ! nat i) (Fsum s ! nat i)"
    and rest: "\<And>i. k \<le> i \<Longrightarrow> i < int (length (F s)) \<Longrightarrow> F t ! nat i = F s ! nat i"
    by (simp_all add: diff_upto_def)
  have same: "Fsum t = Fsum s" "d t = d s" "delta t = delta s"
    by (subst t, simp)+
  have kr: "k < int (length (F s))" "k < int (length (Fsum s))"
    using b k by (simp_all add: bufs_ok_def)
  have inr: "nat k < length (F s)" "nat k < length (Fsum s)" using kr k by linarith+
  have fk: "F t ! nat k = F s ! nat k"
    using rest[of k] kr by simp
  have dv: "diff_val t = diff_val s" by (subst t) (simp add: diff_val_def fun_eq_iff)
  have eq: "diff_cell k t = t\<lparr>F := (F t)[nat k := v]\<rparr>"
    using diff_cell_eq[OF k(1), of t] kr lf by (simp add: same dv fk v_def)
  show ?thesis
    unfolding diff_upto_def eq
  proof (intro conjI allI impI)
    show "t\<lparr>F := (F t)[nat k := v]\<rparr> = s\<lparr>F := F (t\<lparr>F := (F t)[nat k := v]\<rparr>)\<rparr>"
      by (subst t) simp
  next
    fix i assume i: "0 \<le> i \<and> i < k + 1"
    show "F (t\<lparr>F := (F t)[nat k := v]\<rparr>) ! nat i = diff_val s (F s ! nat i) (Fsum s ! nat i)"
    proof (cases "i = k")
      case True
      then show ?thesis using inr lf by (simp add: v_def)
    next
      case False
      then show ?thesis using old[of i] i nat_neq[of i k] k by simp
    qed
  next
    fix i assume i: "k + 1 \<le> i \<and> i < int (length (F s))"
    then have "nat i \<noteq> nat k" using k by linarith
    then show "F (t\<lparr>F := (F t)[nat k := v]\<rparr>) ! nat i = F s ! nat i"
      using rest[of i] i by simp
  qed (simp_all add: lf)
qed

lemma diffuse_upto:
  assumes b: "bufs_ok s"
  shows "diff_upto s (max 0 (N s)) (diffuse s)"
  unfolding diffuse_def
proof (rule for_loop_rule[where P = "diff_upto s"])
  show "diff_upto s 0 s" by (auto simp: diff_upto_def)
next
  fix i t assume "0 \<le> i" "i < N s" "diff_upto s i t"
  then show "diff_upto s (i + 1) (diff_cell i t)"
    using diff_upto_cell[OF b] by simp
qed

subsection \<open>A whole tick\<close>

lemma grid_bufs: "grid_ok s \<Longrightarrow> bufs_ok s"
  by (simp add: grid_ok_def bufs_ok_def)

lemma step_fst:
  "fst (step s) =
     (let s3 = diffuse (fst (transitions (aggregate s)))
      in s3\<lparr>A := A2 s3, A2 := A s3, gen := gen s3 + 1\<rparr>)"
  by (simp add: step_def Let_def case_prod_beta)

lemma rule_next_cong: "tau t = tau s \<Longrightarrow> sigma t = sigma s \<Longrightarrow> rule_next t = rule_next s"
  by (intro ext) (simp add: rule_next_def)

lemma eff_cong: "w0 t = w0 s \<Longrightarrow> w1 t = w1 s \<Longrightarrow> eff t = eff s"
  by (intro ext) (simp add: eff_def)

lemma book_cong:
  "alpha t = alpha s \<Longrightarrow> beta t = beta s \<Longrightarrow> kappa t = kappa s \<Longrightarrow> book t = book s"
  by (intro ext) (simp add: book_def)

lemma diff_val_cong: "d t = d s \<Longrightarrow> delta t = delta s \<Longrightarrow> diff_val t = diff_val s"
  by (intro ext) (simp add: diff_val_def)

text \<open>The cells of a tick, one pass after the other.\<close>

lemma tick_cells:
  assumes g: "grid_ok s" and i: "0 \<le> i" "i < N s"
  defines "n \<equiv> to_uint8 (nsum_js (A s) (W s) (H s) (i mod W s) (i div W s))"
    and "fsm \<equiv> store32 (fsum_js (F s) (W s) (H s) (i mod W s) (i div W s))"
  defines "nx \<equiv> rule_next s (A s ! nat i) n (eff s (F s ! nat i) fsm)"
  shows "A2 (fst (transitions (aggregate s))) ! nat i = nx"
    and "F (fst (transitions (aggregate s))) ! nat i = book s (A s ! nat i) nx (F s ! nat i)"
    and "F (fst (step s)) ! nat i = diff_val s (book s (A s ! nat i) nx (F s ! nat i)) fsm"
    and "A (fst (step s)) ! nat i = nx"
proof -
  define s1 where "s1 = aggregate s"
  define s2 where "s2 = fst (transitions s1)"
  define s3 where "s3 = diffuse s2"
  note af = aggregate_facts[OF g, folded s1_def]
  have s1: "s1 = s\<lparr>Nsum := Nsum s1, Fsum := Fsum s1\<rparr>" by (rule af(1))
  have n1: "N s1 = N s" "A s1 = A s" "F s1 = F s"
    by (subst s1, simp)+
  have b1: "bufs_ok s1" using af(2) by (rule grid_bufs)
  note tu = transitions_upto[OF b1, folded s2_def, unfolded trans_upto_def]
  have s2: "s2 = s1\<lparr>A2 := A2 s2, F := F s2\<rparr>" using tu by simp
  have ip: "i < max 0 (N s1)" using i by (simp add: n1)
  have par1: "tau s1 = tau s" "sigma s1 = sigma s" "w0 s1 = w0 s" "w1 s1 = w1 s"
    "alpha s1 = alpha s" "beta s1 = beta s" "kappa s1 = kappa s"
    by (subst s1, simp)+
  have p1: "rule_next s1 = rule_next s" "eff s1 = eff s" "book s1 = book s"
    using par1 by (auto intro: rule_next_cong eff_cong book_cong)
  have nc: "next_cell s1 i = nx"
    unfolding next_cell_def nx_def p1
    using af(3)[OF i] af(4)[OF i]
    by (simp add: n1 n_def fsm_def)
  have bc: "book_cell s1 i = book s (A s ! nat i) nx (F s ! nat i)"
    unfolding book_cell_def nc p1 by (simp add: n1)
  have a2: "A2 s2 ! nat i = nx"
    using tu i ip nc by simp
  then show "A2 (fst (transitions (aggregate s))) ! nat i = nx"
    by (simp add: s2_def s1_def)
  have f2: "F s2 ! nat i = book s (A s ! nat i) nx (F s ! nat i)"
    using tu i ip bc by simp
  then show "F (fst (transitions (aggregate s))) ! nat i = book s (A s ! nat i) nx (F s ! nat i)"
    by (simp add: s2_def s1_def)
  have same2: "N s2 = N s1" "A s2 = A s1" "Fsum s2 = Fsum s1" "Nsum s2 = Nsum s1"
    "W s2 = W s1" "H s2 = H s1"
    by (subst s2, simp)+
  have l2: "length (A2 s2) = length (A2 s1)" "length (F s2) = length (F s1)"
    using tu by blast+
  have g2: "grid_ok s2"
    using af(2) l2 by (simp add: grid_ok_def same2)
  have b2: "bufs_ok s2" using g2 by (rule grid_bufs)
  have fs2: "Fsum s2 = Fsum s1" "N s2 = N s"
    by (simp_all add: same2 n1)
  note du = diffuse_upto[OF b2, folded s3_def, unfolded diff_upto_def]
  have s3: "s3 = s2\<lparr>F := F s3\<rparr>" using du by simp
  have a3: "A2 s3 = A2 s2" by (subst s3) simp
  have same3: "N s3 = N s2" "A s3 = A s2" "Fsum s3 = Fsum s2" "Nsum s3 = Nsum s2"
    "W s3 = W s2" "H s3 = H s2" "A2 s3 = A2 s2"
    by (subst s3, simp)+
  have l3: "length (F s3) = length (F s2)" using du by blast
  have "d s2 = d s1" "delta s2 = delta s1" by (subst s2, simp)+
  moreover have "d s1 = d s" "delta s1 = delta s" by (subst s1, simp)+
  ultimately have dv: "diff_val s2 = diff_val s" by (auto intro: diff_val_cong)
  have "F s3 ! nat i = diff_val s2 (F s2 ! nat i) (Fsum s2 ! nat i)"
    using du i by (simp add: fs2)
  then have f3: "F s3 ! nat i = diff_val s (book s (A s ! nat i) nx (F s ! nat i)) fsm"
    using f2 af(4)[OF i] by (simp add: dv fs2 fsm_def)
  show "F (fst (step s)) ! nat i = diff_val s (book s (A s ! nat i) nx (F s ! nat i)) fsm"
    using f3 by (simp add: step_fst Let_def s3_def s2_def s1_def)
  show "A (fst (step s)) ! nat i = nx"
    using a2 a3 by (simp add: step_fst Let_def s3_def s2_def s1_def)
qed

text \<open>A tick keeps a well-formed grid well-formed, with liveness 0 or 1.\<close>

lemma binary_all_nth:
  assumes "\<And>k. k < length xs \<Longrightarrow> xs ! k \<le> 1"
  shows "binary xs"
  using assms by (auto simp: binary_def in_set_conv_nth)

lemma step_grid_ok:
  assumes g: "grid_ok s"
  shows "grid_ok (fst (step s))" and "binary (A (fst (step s)))"
    and "W (fst (step s)) = W s" and "H (fst (step s)) = H s"
    and "A2 (fst (step s)) = A s" and "gen (fst (step s)) = gen s + 1"
proof -
  define s1 where "s1 = aggregate s"
  define s2 where "s2 = fst (transitions s1)"
  define s3 where "s3 = diffuse s2"
  note af = aggregate_facts[OF g, folded s1_def]
  have s1: "s1 = s\<lparr>Nsum := Nsum s1, Fsum := Fsum s1\<rparr>" by (rule af(1))
  have same1: "N s1 = N s" "A s1 = A s" "W s1 = W s" "H s1 = H s" "gen s1 = gen s"
    by (subst s1, simp)+
  note tu = transitions_upto[OF grid_bufs[OF af(2)], folded s2_def, unfolded trans_upto_def]
  have s2: "s2 = s1\<lparr>A2 := A2 s2, F := F s2\<rparr>" using tu by simp
  have same2: "N s2 = N s1" "A s2 = A s1" "Fsum s2 = Fsum s1" "Nsum s2 = Nsum s1"
    "W s2 = W s1" "H s2 = H s1" "gen s2 = gen s1"
    by (subst s2, simp)+
  have l2: "length (A2 s2) = length (A2 s1)" "length (F s2) = length (F s1)"
    using tu by blast+
  have g2: "grid_ok s2"
    using af(2) l2 by (simp add: grid_ok_def same2)
  note du = diffuse_upto[OF grid_bufs[OF g2], folded s3_def, unfolded diff_upto_def]
  have s3: "s3 = s2\<lparr>F := F s3\<rparr>" using du by simp
  have same3: "N s3 = N s2" "A s3 = A s2" "Fsum s3 = Fsum s2" "Nsum s3 = Nsum s2"
    "W s3 = W s2" "H s3 = H s2" "A2 s3 = A2 s2" "gen s3 = gen s2"
    by (subst s3, simp)+
  have l3: "length (F s3) = length (F s2)" using du by blast
  have e: "fst (step s) = s3\<lparr>A := A2 s3, A2 := A s3, gen := gen s3 + 1\<rparr>"
    by (simp add: step_fst Let_def s3_def s2_def s1_def)
  show "grid_ok (fst (step s))"
    unfolding e using g2 l3 by (simp add: grid_ok_def same3)
  show "W (fst (step s)) = W s" "H (fst (step s)) = H s" "A2 (fst (step s)) = A s"
    "gen (fst (step s)) = gen s + 1"
    unfolding e by (simp_all add: same3 same2 same1)
  have ln: "int (length (A2 s2)) = N s1" using g2 by (simp add: grid_ok_def same2)
  have "binary (A2 s2)"
  proof (rule binary_all_nth)
    fix k assume "k < length (A2 s2)"
    then have "0 \<le> int k \<and> int k < max 0 (N s1)" using ln by simp
    then have "A2 s2 ! nat (int k) = next_cell s1 (int k)" using tu by blast
    then show "A2 s2 ! k \<le> 1" using next_cell_le[of s1 "int k"] by simp
  qed
  then show "binary (A (fst (step s)))"
    unfolding e by (simp add: same3)
qed

lemma book_unfold: "book s a nx f =
     (if a = 1 \<and> nx = 0 then store32 (nplus f (Fin (alpha s)))
      else if a = 0 \<and> nx = 1 then store32 (nmax (Fin 0) (nminus f (Fin (beta s))))
      else if a = 1 \<and> nx = 1 then store32 (nmax (Fin 0) (nminus f (Fin (kappa s))))
      else f)"
  by (simp add: book_def)

text \<open>The cell at column \<open>x\<close> of row \<open>y\<close> of a grid with liveness 0 or 1.\<close>

lemma tick_at:
  assumes g: "grid_ok s" and xy: "0 \<le> x" "x < W s" "0 \<le> y" "y < H s"
  defines "i \<equiv> nat (y * W s + x)"
    and "fsm \<equiv> store32 (fsum_js (F s) (W s) (H s) x y)"
  shows "binary (A s) \<Longrightarrow> A (fst (step s)) ! i =
           rule_next s (A s ! i) (live_count (A s) (W s) (H s) x y) (eff s (F s ! i) fsm)"
    and "binary (A s) \<Longrightarrow> F (fst (transitions (aggregate s))) ! i =
           book s (A s ! i)
             (rule_next s (A s ! i) (live_count (A s) (W s) (H s) x y) (eff s (F s ! i) fsm))
             (F s ! i)"
    and "F (fst (step s)) ! i =
           diff_val s (F (fst (transitions (aggregate s))) ! i) fsm"
proof -
  define j where "j = y * W s + x"
  have gs: "0 < W s" "0 < H s" "N s = W s * H s" "int (length (A s)) = W s * H s"
    using g by (simp_all add: grid_ok_def)
  have ir: "0 \<le> j" "j < N s"
    using cell_index_range[OF xy] gs by (simp_all add: j_def)
  have dm: "j mod W s = x" "j div W s = y"
    using xy by (simp_all add: j_def)
  note tc = tick_cells[OF g ir, unfolded dm, folded fsm_def]
  show "F (fst (step s)) ! i = diff_val s (F (fst (transitions (aggregate s))) ! i) fsm"
    using tc(2,3) by (simp add: i_def j_def)
  assume b: "binary (A s)"
  have n: "to_uint8 (nsum_js (A s) (W s) (H s) x y) = live_count (A s) (W s) (H s) x y"
    using nsum_js_count(2)[OF b gs(1,2,4)] .
  show "A (fst (step s)) ! i =
           rule_next s (A s ! i) (live_count (A s) (W s) (H s) x y) (eff s (F s ! i) fsm)"
    using tc(4) unfolding n by (simp add: i_def j_def)
  show "F (fst (transitions (aggregate s))) ! i =
           book s (A s ! i)
             (rule_next s (A s ! i) (live_count (A s) (W s) (H s) x y) (eff s (F s ! i) fsm))
             (F s ! i)"
    using tc(2) unfolding n by (simp add: i_def j_def)
qed

subsection \<open>Rendering a frame\<close>

lemma render_cell_length: "length (render_cell s i out) = length out"
  by (simp add: render_cell_def Let_def wr_length)

lemma render_cell_alpha:
  assumes "0 \<le> i" "i * 4 + 3 < int (length out)"
  shows "render_cell s i out ! nat (i * 4 + 3) = 255"
  using assms by (simp add: render_cell_def Let_def wr_nth wr_length)

lemma render_cell_other:
  assumes "0 \<le> k" "k < i * 4"
  shows "render_cell s i out ! nat k = out ! nat k"
  using assms by (simp add: render_cell_def Let_def wr_nth_other)

lemma renderFrame_ok:
  assumes "can_alloc s 1 (N s * 4)"
  shows "\<exists>px. renderFrame s = Inr px \<and> int (length px) = N s * 4 \<and>
           (\<forall>i. 0 \<le> i \<and> i < N s \<longrightarrow> px ! nat (i * 4 + 3) = 255)"
proof -
  have n0: "0 \<le> N s" using assms by (simp add: can_alloc_def)
  have "render_upto s (max 0 (N s)) (for_loop (N s) (render_cell s) (replicate (nat (N s * 4)) 0))"
  proof (rule for_loop_rule[where P = "render_upto s"])
    show "render_upto s 0 (replicate (nat (N s * 4)) 0)"
      using n0 by (auto simp: render_upto_def)
  next
    fix i out assume i: "0 \<le> i" "i < N s" and inv: "render_upto s i out"
    show "render_upto s (i + 1) (render_cell s i out)"
      unfolding render_upto_def
    proof (intro conjI allI impI)
      show "int (length (render_cell s i out)) = N s * 4"
        using inv by (simp add: render_cell_length render_upto_def)
    next
      fix k assume k: "0 \<le> k \<and> k < i + 1"
      show "render_cell s i out ! nat (k * 4 + 3) = 255"
      proof (cases "k = i")
        case True
        then show ?thesis using render_cell_alpha[of i out s] i inv by (simp add: render_upto_def)
      next
        case False
        then have "k * 4 + 3 < i * 4" "0 \<le> k * 4 + 3" using k by simp_all
        then show ?thesis using render_cell_other[of "k * 4 + 3" i s out] inv k False
          by (simp add: render_upto_def)
      qed
    qed
  qed
  then show ?thesis using assms n0 by (simp add: renderFrame_def render_upto_def max_def)
qed

lemma renderFrame_fail: "\<not> can_alloc s 1 (N s * 4) \<Longrightarrow> renderFrame s = Inl RangeError"
  by (simp add: renderFrame_def)



lemma postFrame_posted:
  assumes "can_alloc s 1 (N s * 4)"
  shows "\<exists>px. postFrame s k src =
           Posted \<lparr> source = src, width = W s, height = H s, generation = gen s,
                    alive = k, buffer = px \<rparr> \<and> int (length px) = N s * 4"
  using renderFrame_ok[OF assms] by (auto simp: postFrame_def)

lemma postFrame_threw: "\<not> can_alloc s 1 (N s * 4) \<Longrightarrow> postFrame s k src = Threw RangeError"
  by (simp add: postFrame_def renderFrame_fail)

subsection \<open>Merged parameters\<close>

lemma set_field:
  "(case x of Some v \<Rightarrow> s\<lparr>f0 := v\<rparr> | None \<Rightarrow> s) = s\<lparr>f0 := pick (f0 s) x\<rparr>"
  "(case x of Some v \<Rightarrow> s\<lparr>tau := v\<rparr> | None \<Rightarrow> s) = s\<lparr>tau := pick (tau s) x\<rparr>"
  "(case x of Some v \<Rightarrow> s\<lparr>sigma := v\<rparr> | None \<Rightarrow> s) = s\<lparr>sigma := pick (sigma s) x\<rparr>"
  "(case x of Some v \<Rightarrow> s\<lparr>alpha := v\<rparr> | None \<Rightarrow> s) = s\<lparr>alpha := pick (alpha s) x\<rparr>"
  "(case x of Some v \<Rightarrow> s\<lparr>beta := v\<rparr> | None \<Rightarrow> s) = s\<lparr>beta := pick (beta s) x\<rparr>"
  "(case x of Some v \<Rightarrow> s\<lparr>kappa := v\<rparr> | None \<Rightarrow> s) = s\<lparr>kappa := pick (kappa s) x\<rparr>"
  "(case x of Some v \<Rightarrow> s\<lparr>d := v\<rparr> | None \<Rightarrow> s) = s\<lparr>d := pick (d s) x\<rparr>"
  "(case x of Some v \<Rightarrow> s\<lparr>delta := v\<rparr> | None \<Rightarrow> s) = s\<lparr>delta := pick (delta s) x\<rparr>"
  "(case x of Some v \<Rightarrow> (let sa = s\<lparr>w0 := max 0 (min 1 v)\<rparr> in sa\<lparr>w1 := r64 (1 - w0 sa)\<rparr>)
            | None \<Rightarrow> s) =
     s\<lparr>w0 := pick (w0 s) (map_option (\<lambda>v. max 0 (min 1 v)) x),
       w1 := pick (w1 s) (map_option (\<lambda>v. r64 (1 - max 0 (min 1 v))) x)\<rparr>"
  by (cases x; simp add: pick_def)+

lemma set_params_fields:
  "fst (onmessage s (SetParams p)) =
     s\<lparr> f0 := pick (f0 s) (p_f0 p), tau := pick (tau s) (p_tau p),
        sigma := pick (sigma s) (p_sigma p), alpha := pick (alpha s) (p_alpha p),
        beta := pick (beta s) (p_beta p), kappa := pick (kappa s) (p_kappa p),
        d := pick (d s) (p_d p), delta := pick (delta s) (p_delta p),
        w0 := pick (w0 s) (map_option (\<lambda>v. max 0 (min 1 v)) (p_w0 p)),
        w1 := pick (w1 s) (map_option (\<lambda>v. r64 (1 - max 0 (min 1 v))) (p_w0 p)) \<rparr>"
  by (simp add: set_field Let_def)

lemma set_params_no_frame: "snd (onmessage s (SetParams p)) = NoFrame"
  by (simp add: Let_def)

subsection \<open>Values of the examples\<close>

lemma f64_vals:
  "f64 (3 / 2) = Fin (3 / 2)" "f64 (9 / 4) = Fin (9 / 4)" "f64 3 = Fin 3"
  "f64 (15 / 4) = Fin (15 / 4)" "f64 (9 / 2) = Fin (9 / 2)" "f64 (21 / 4) = Fin (21 / 4)"
  "f64 6 = Fin 6" "f64 (3 / 4) = Fin (3 / 4)" "f64 (3 / 8) = Fin (3 / 8)"
  "f64 (1 / 2) = Fin (1 / 2)" "f64 (1 / 4) = Fin (1 / 4)" "f64 (1 / 16) = Fin (1 / 16)"
  "f64 (9 / 16) = Fin (9 / 16)" "f64 (127 / 128) = Fin (127 / 128)"
  "f64 (1143 / 2048) = Fin (1143 / 2048)"
  "f64 1 = Fin 1" "f64 2 = Fin 2" "f64 4 = Fin 4" "f64 5 = Fin 5" "f64 7 = Fin 7" "f64 8 = Fin 8"
  "f64 (5 / 2) = Fin (5 / 2)" "f64 (7 / 2) = Fin (7 / 2)"
  "f64 16777217 = Fin 16777217" "f64 16777216 = Fin 16777216"
  "f64 (1073741823 / 1073741824) = Fin (1073741823 / 1073741824)"
  using f64_dyadic[of 3 1] f64_dyadic[of 9 2] f64_dyadic[of 3 0] f64_dyadic[of 15 2]
    f64_dyadic[of 9 1] f64_dyadic[of 21 2] f64_dyadic[of 6 0] f64_dyadic[of 3 2]
    f64_dyadic[of 3 3] f64_dyadic[of 1 1] f64_dyadic[of 1 2] f64_dyadic[of 1 4]
    f64_dyadic[of 9 4] f64_dyadic[of 127 7] f64_dyadic[of 1143 11]
    f64_dyadic[of 1 0] f64_dyadic[of 2 0] f64_dyadic[of 4 0] f64_dyadic[of 5 0]
    f64_dyadic[of 7 0] f64_dyadic[of 8 0] f64_dyadic[of 5 1] f64_dyadic[of 7 1]
    f64_dyadic[of 16777217 0] f64_dyadic[of 16777216 0] f64_dyadic[of 1073741823 30]
  by simp_all

lemma f32_vals:
  "f32 6 = Fin 6" "f32 (1 / 2) = Fin (1 / 2)" "f32 (1143 / 2048) = Fin (1143 / 2048)"
  "f32 (3 / 4) = Fin (3 / 4)" "f32 8 = Fin 8" "f32 4 = Fin 4" "f32 (- 1) = Fin (- 1)"
  "f32 1 = Fin 1"
  using f32_dyadic[of 6 0] f32_dyadic[of 1 1] f32_dyadic[of 1143 11] f32_dyadic[of 3 2]
    f32_dyadic[of 8 0] f32_dyadic[of 4 0] f32_dyadic[of "- 1" 0] f32_dyadic[of 1 0]
  by simp_all

lemma f32_round_vals:
  "f32 16777217 = Fin 16777216"
  "f32 (1073741823 / 1073741824) = Fin 1"
  "f32 (- (1 / 2 ^ 200)) = Fin 0"
  "f32 (3152519739159347 / 4503599627370496) = Fin (11744051 / 16777216)"
proof -
  have "rnd_val 24 (- 126) 16777217 = 16777216"
    by (subst rnd_val_at[of _ 24]) (simp_all add: round_half_even_def)
  then show "f32 16777217 = Fin 16777216" by (simp add: f32_def rnd_def)
  have "rnd_val 24 (- 126) (1073741823 / 1073741824) = 1"
    by (subst rnd_val_at[of _ "- 1"]) (simp_all add: round_half_even_def)
  then show "f32 (1073741823 / 1073741824) = Fin 1" by (simp add: f32_def rnd_def)
  have "rnd_val 24 (- 126) (- (1 / 2 ^ 200)) = 0"
    by (subst rnd_val_at[of _ "- 200"]) (simp_all add: round_half_even_def)
  then show "f32 (- (1 / 2 ^ 200)) = Fin 0" by (simp add: f32_def rnd_def)
  have "rnd_val 24 (- 126) (3152519739159347 / 4503599627370496) = 11744051 / 16777216"
    by (subst rnd_val_at[of _ "- 1"]) (simp_all add: round_half_even_def)
  then show "f32 (3152519739159347 / 4503599627370496) = Fin (11744051 / 16777216)"
    by (simp add: f32_def rnd_def)
qed

lemma r64_vals:
  "r64 (7 / 10) = 3152519739159347 / 4503599627370496"
  "r64 (1152921504606846975 / 1152921504606846976) = 1"
  "r64 1 = 1" "r64 0 = 0" "r64 (1 / 2) = 1 / 2"
  "r64 (1 / 10) = 3602879701896397 / 36028797018963968"
  "r64 (10808639105689191 / 36028797018963968) = 1351079888211149 / 4503599627370496"
proof -
  show "r64 (1 / 10) = 3602879701896397 / 36028797018963968"
    unfolding r64_def by (subst rnd_val_at[of _ "- 4"]) (simp_all add: round_half_even_def)
  show "r64 (10808639105689191 / 36028797018963968) = 1351079888211149 / 4503599627370496"
    unfolding r64_def by (subst rnd_val_at[of _ "- 2"]) (simp_all add: round_half_even_def)
  show "r64 (7 / 10) = 3152519739159347 / 4503599627370496"
    unfolding r64_def by (subst rnd_val_at[of _ "- 1"]) (simp_all add: round_half_even_def)
  show "r64 (1152921504606846975 / 1152921504606846976) = 1"
    unfolding r64_def by (subst rnd_val_at[of _ "- 1"]) (simp_all add: round_half_even_def)
  show "r64 1 = 1" using r64_dyadic[of 1 0] by simp
  show "r64 0 = 0" by (simp add: r64_def rnd_val_def)
  show "r64 (1 / 2) = 1 / 2" using r64_dyadic[of 1 1] by simp
qed

lemma binary_replicate: "binary (replicate n 0)"
  by (simp add: binary_def)

lemma binary_update:
  assumes "binary xs" "v \<le> 1"
  shows "binary (xs[k := v])"
  unfolding binary_def
proof
  fix x assume "x \<in> set (xs[k := v])"
  then have "x \<in> insert v (set xs)" using set_update_subset_insert[of xs k v] by blast
  then show "x \<le> 1" using assms by (auto simp: binary_def)
qed

lemma f64_r64: "\<bar>r64 x\<bar> \<le> 1 \<Longrightarrow> f64 x = Fin (r64 x)"
proof -
  assume a: "\<bar>r64 x\<bar> \<le> 1"
  have "(1::real) \<le> (2 ^ 53 - 1) * 2 powi (1023 - int 53 + 1)"
    by (simp add: power_int_def)
  then show ?thesis using a by (simp add: f64_def r64_def rnd_def Let_def)
qed

lemma ex_grid_ok: "grid_ok ex_grid" "grid_ok ex_big" "grid_ok ex_dec" "grid_ok ex_two"
  "grid_ok ex_one" "grid_ok ex_thr"
  by (simp_all add: grid_ok_def ex_grid_def ex_big_def ex_dec_def ex_two_def ex_one_def
      ex_thr_def)

subsection \<open>Well-formed grids are kept\<close>

lemma can_alloc_cong: "alloc t = alloc s \<Longrightarrow> can_alloc t = can_alloc s"
  by (intro ext) (simp add: can_alloc_def)

lemma can_alloc_upd:
  "can_alloc (s\<lparr>W := w\<rparr>) = can_alloc s" "can_alloc (s\<lparr>H := h\<rparr>) = can_alloc s"
  "can_alloc (s\<lparr>N := n\<rparr>) = can_alloc s" "can_alloc (s\<lparr>A := a\<rparr>) = can_alloc s"
  by (simp_all add: can_alloc_def fun_eq_iff)

lemma ensureArrays_ok:
  assumes "can_alloc s 1 (wd * ht)" "can_alloc s 4 (wd * ht)"
  shows "ensureArrays wd ht s =
           (s\<lparr>W := wd, H := ht, N := wd * ht, A := replicate (nat (wd * ht)) 0,
              F := replicate (nat (wd * ht)) (f32 (f0 s)),
              A2 := replicate (nat (wd * ht)) 0,
              Fsum := replicate (nat (wd * ht)) (Fin 0),
              Nsum := replicate (nat (wd * ht)) 0, gen := 0, initialized := True\<rparr>, None)"
  using assms by (simp add: ensureArrays_def Let_def fill_def can_alloc_upd)

lemma ensureArrays_fail:
  "\<not> can_alloc s 1 (wd * ht) \<Longrightarrow>
     ensureArrays wd ht s = (s\<lparr>W := wd, H := ht, N := wd * ht\<rparr>, Some RangeError)"
  "can_alloc s 1 (wd * ht) \<Longrightarrow> \<not> can_alloc s 4 (wd * ht) \<Longrightarrow>
     ensureArrays wd ht s =
       (s\<lparr>W := wd, H := ht, N := wd * ht, A := replicate (nat (wd * ht)) 0\<rparr>, Some RangeError)"
  by (simp_all add: ensureArrays_def Let_def can_alloc_upd)

lemma init_grid_ok:
  assumes "0 < wd" "0 < ht" "can_alloc s 1 (wd * ht)" "can_alloc s 4 (wd * ht)"
  shows "grid_ok (fst (onmessage s (Init wd ht)))"
    and "binary (A (fst (onmessage s (Init wd ht))))"
proof -
  have "0 \<le> wd * ht" using assms(3) by (simp add: can_alloc_def)
  then show "grid_ok (fst (onmessage s (Init wd ht)))"
    and "binary (A (fst (onmessage s (Init wd ht))))"
    using assms by (simp_all add: ensureArrays_ok grid_ok_def binary_replicate)
qed

lemma binary_wr: "binary xs \<Longrightarrow> v \<le> 1 \<Longrightarrow> binary (wr xs i v)"
  by (simp add: wr_def binary_update)

lemma grid_kept:
  assumes g: "grid_ok s" and b: "binary (A s)" and m: "\<And>wd ht. m \<noteq> Init wd ht"
  shows "grid_ok (fst (onmessage s m)) \<and> binary (A (fst (onmessage s m)))"
proof (cases m)
  case (Init wd ht)
  then show ?thesis using m by simp
next
  case Step
  then show ?thesis using step_grid_ok(1,2)[OF g] g b by (simp add: case_prod_beta)
next
  case Render
  then show ?thesis using g b by simp
next
  case Reset
  then show ?thesis using g b by (simp add: grid_ok_def fill_def Let_def binary_replicate)
next
  case (SetCell x y v)
  then show ?thesis using g b binary_wr[OF b] by (simp add: grid_ok_def wr_length)
next
  case (SetParams p)
  have "grid_ok (fst (onmessage s (SetParams p)))" "A (fst (onmessage s (SetParams p))) = A s"
    unfolding set_params_fields using g by (simp_all add: grid_ok_def)
  then show ?thesis using b SetParams by (simp del: onmessage.simps)
next
  case Clear
  then show ?thesis using g b by simp
qed

section \<open>The claims\<close>

subsection \<open>The transition rule (C1)\<close>

text \<open>
  Claim C1, as stated, reads the rule and the bookkeeping over the real numbers. The
  worker computes \<open>E\<close> in float64 and stores fertilities in a \<open>Float32Array\<close>. On the
  3 by 3 grid \<open>ex_big\<close> the live cell at the centre has no live neighbour and the
  fertility \<open>2^24\<close>; it dies, \<open>alpha\<close> is 1, and the sum \<open>2^24 + 1\<close> is stored as
  \<open>2^24\<close>: the death leaves \<open>F[i]\<close> as it was. On the grid \<open>ex_thr\<close> the dead cell
  at the centre has three live neighbours, \<open>F[i] = 3\<close> and \<open>favg = 0\<close>; the real number
  \<open>w0 * F[i] + w1 * favg\<close> is below \<open>tau\<close>, the float64 \<open>E\<close> equals \<open>tau\<close>, and the
  cell is born.
\<close>

theorem death_deposit_counterexample:
  "grid_ok ex_big \<and> A ex_big = [0, 0, 0, 0, 1, 0, 0, 0, 0] \<and> alpha ex_big = 1 \<and>
   F ex_big ! 4 = Fin 16777216 \<and>
   A (fst (step ex_big)) ! 4 = 0 \<and>
   F (fst (transitions (aggregate ex_big))) ! 4 = Fin 16777216 \<and>
   grid_ok ex_thr \<and> A ex_thr = [1, 1, 1, 0, 0, 0, 0, 0, 0] \<and>
   F ex_thr = [Fin 0, Fin 0, Fin 0, Fin 0, Fin 3, Fin 0, Fin 0, Fin 0, Fin 0] \<and>
   w0 ex_thr * 3 + w1 ex_thr * (0 / 8) < tau ex_thr \<and>
   A (fst (step ex_thr)) ! 4 = 1"
proof -
  have v: "A ex_big = [0, 0, 0, 0, 1, 0, 0, 0, 0]" "W ex_big = 3" "H ex_big = 3" "N ex_big = 9"
    "alpha ex_big = 1" "F ex_big ! 4 = Fin 16777216"
    by (simp_all add: ex_big_def ex_grid_def)
  have b: "binary (A ex_big)" by (simp add: v binary_def)
  have xy: "(0::int) \<le> 1" "1 < W ex_big" "1 < H ex_big" by (simp_all add: v)
  have lc: "live_count (A ex_big) 3 3 1 1 = 0"
    by (simp add: v live_count_def torus_nbrs_def)
  note t = tick_at(1,2)[OF ex_grid_ok(2) xy(1,2,1,3) b, unfolded v(2,3) lc]
  have big: "A (fst (step ex_big)) ! 4 = 0"
    "F (fst (transitions (aggregate ex_big))) ! 4 = Fin 16777216"
    using t by (simp_all add: rule_next_def book_def v f64_vals f32_round_vals)
  have u: "A ex_thr = [1, 1, 1, 0, 0, 0, 0, 0, 0]" "W ex_thr = 3" "H ex_thr = 3"
    "F ex_thr = [Fin 0, Fin 0, Fin 0, Fin 0, Fin 3, Fin 0, Fin 0, Fin 0, Fin 0]"
    "w0 ex_thr = 3602879701896397 / 36028797018963968"
    "tau ex_thr = 1351079888211149 / 4503599627370496"
    by (simp_all add: ex_thr_def ex_grid_def r64_vals eval_nat_numeral)
  have bu: "binary (A ex_thr)" by (simp add: u binary_def)
  have xyu: "(0::int) \<le> 1" "1 < W ex_thr" "1 < H ex_thr" by (simp_all add: u)
  have lcu: "live_count (A ex_thr) 3 3 1 1 = 3"
    by (simp add: u live_count_def torus_nbrs_def)
  have fsu: "fsum_js (F ex_thr) 3 3 1 1 = Fin 0"
    by (simp add: u fsum_js_def torus_nbrs_def rdf_def f64_zero)
  have e: "f64 (10808639105689191 / 36028797018963968) =
      Fin (1351079888211149 / 4503599627370496)"
    by (rule f64_r64[of "10808639105689191 / 36028797018963968", unfolded r64_vals]) simp
  have e2: "f64 (1351079888211149 / 4503599627370496) =
      Fin (1351079888211149 / 4503599627370496)"
    using f64_dyadic[of 1351079888211149 52] by simp
  have "A (fst (step ex_thr)) ! 4 = 1"
    using tick_at(1)[OF ex_grid_ok(6) xyu(1,2,1,3) bu, unfolded u(2,3) lcu fsu]
    by (simp add: rule_next_def eff_def u f32_zero f64_zero e e2)
  moreover have "w0 ex_thr * 3 + w1 ex_thr * (0 / 8) < tau ex_thr"
    by (simp add: u)
  ultimately show ?thesis using ex_grid_ok(2,6) v big u by simp
qed

text \<open>
  Claim C1, amended. In a tick, for the cell \<open>i\<close> at column \<open>x\<close> of row \<open>y\<close> of a
  well-formed grid (positive dimensions, buffers of \<open>W * H\<close> cells, liveness 0 or 1), with
  \<open>a\<close> its liveness and \<open>f\<close> its fertility before the tick, \<open>n\<close> the number of live
  cells among its eight neighbours on the torus, \<open>favg\<close> an eighth of the float32 sum of
  their fertilities before the tick and \<open>E = w0 * f + w1 * favg\<close> evaluated in float64:
  the cell is alive after the tick exactly when it was dead with \<open>n = 3\<close> and
  \<open>E \<ge> tau\<close>, or alive with \<open>n\<close> 2 or 3 and \<open>E \<ge> sigma\<close>; and the transition pass
  leaves in \<open>F[i]\<close> the float32 nearest to \<open>f + alpha\<close> after a death, to
  \<open>max(0, f - beta)\<close> after a birth, to \<open>max(0, f - kappa)\<close> after a survival, each
  evaluated in float64, and \<open>f\<close> itself for a cell that stays dead. A successful
  \<open>init\<close> with positive dimensions gives such a grid (lemma \<open>init_grid_ok\<close>) and every
  later command but \<open>init\<close> keeps it one (lemma \<open>grid_kept\<close>).
\<close>

theorem transition_rule:
  assumes "grid_ok s" and "binary (A s)"
    and "0 \<le> x" "x < W s" "0 \<le> y" "y < H s"
  shows
    "(let i = nat (y * W s + x);
          a = A s ! i;
          f = F s ! i;
          n = live_count (A s) (W s) (H s) x y;
          favg = ntimes (store32 (fsum_js (F s) (W s) (H s) x y)) (Fin (1 / 8));
          E = nplus (ntimes (Fin (w0 s)) f) (ntimes (Fin (w1 s)) favg);
          nx = (if (a = 0 \<and> n = 3 \<and> nge E (Fin (tau s))) \<or>
                   (a = 1 \<and> (n = 2 \<or> n = 3) \<and> nge E (Fin (sigma s)))
                then 1 else 0)
      in A (fst (step s)) ! i = nx \<and>
         F (fst (transitions (aggregate s))) ! i =
           (if a = 1 \<and> nx = 0 then store32 (nplus f (Fin (alpha s)))
            else if a = 0 \<and> nx = 1 then store32 (nmax (Fin 0) (nminus f (Fin (beta s))))
            else if a = 1 \<and> nx = 1 then store32 (nmax (Fin 0) (nminus f (Fin (kappa s))))
            else f))"
  using tick_at(1,2)[OF assms(1,3-6,2)]
  unfolding Let_def rule_next_def eff_def book_unfold by simp

theorem transition_rule_witness:
  "grid_ok ex_grid \<and> binary (A ex_grid) \<and> (0::int) \<le> 1 \<and> 1 < W ex_grid \<and> 1 < H ex_grid \<and>
   A ex_grid ! 4 = 0 \<and> F ex_grid ! 4 = Fin (3 / 4) \<and>
   A (fst (step ex_grid)) ! 4 = 1 \<and>
   F (fst (transitions (aggregate ex_grid))) ! 4 = Fin (1 / 2)"
proof -
  have h: "grid_ok ex_grid" "binary (A ex_grid)" "(0::int) \<le> 1" "1 < W ex_grid" "1 < H ex_grid"
    by (simp_all add: grid_ok_def ex_grid_def binary_def)
  have v: "A ex_grid = [1, 1, 1, 0, 0, 0, 0, 0, 0]" "W ex_grid = 3" "H ex_grid = 3"
    "F ex_grid = replicate 9 (Fin (3 / 4))"
    "w0 ex_grid = 1 / 2" "w1 ex_grid = 1 / 2" "tau ex_grid = 1 / 2" "beta ex_grid = 1 / 4"
    by (simp_all add: ex_grid_def)
  have lc: "live_count (A ex_grid) 3 3 1 1 = 3"
    by (simp add: v live_count_def torus_nbrs_def)
  have fs: "fsum_js (F ex_grid) 3 3 1 1 = Fin 6"
    by (simp add: v fsum_js_def torus_nbrs_def rdf_def f64_vals)
  show ?thesis
    using h transition_rule[OF h(1,2,3,4,3,5)]
    by (simp add: v(2,3) lc fs Let_def f64_vals f32_vals) (simp add: v f64_vals f32_vals)
qed

subsection \<open>Diffusion and decay (C2)\<close>




subsection \<open>Wraparound (C3)\<close>

text \<open>
  Claim C3, as stated, for grids of width and height at least 2: on the 2 by 2 grid whose
  only live cell is at (0,0), the cell (1,0) has \<open>xl = xr = 0\<close>, so the live cell is
  counted twice and the neighbour count of (1,0) is 2, not 1.
\<close>

theorem wraparound_two_counterexample:
  "grid_ok ex_two \<and> 2 \<le> W ex_two \<and> 2 \<le> H ex_two \<and> A ex_two = (replicate 4 0)[0 := 1] \<and>
   Nsum (aggregate ex_two) ! nat (0 * W ex_two + 1) = 2"
proof -
  have v: "W ex_two = 2" "H ex_two = 2" "N ex_two = 4" "A ex_two = [1, 0, 0, 0]"
    by (simp_all add: ex_two_def)
  have b: "binary (A ex_two)" by (simp add: v binary_def)
  have "Nsum (aggregate ex_two) ! nat 1 = to_uint8 (nsum_js (A ex_two) 2 2 1 0)"
    using aggregate_facts(3)[OF ex_grid_ok(4), of 1] by (simp add: v)
  also have "\<dots> = live_count (A ex_two) 2 2 1 0"
    by (rule nsum_js_count(2)[OF b]) (simp_all add: v)
  also have "\<dots> = 2" by (simp add: v live_count_def torus_nbrs_def)
  finally have "Nsum (aggregate ex_two) ! nat (0 * W ex_two + 1) = 2" by (simp add: v)
  moreover have "A ex_two = (replicate 4 0)[0 := 1]"
    by (simp add: ex_two_def eval_nat_numeral)
  ultimately show ?thesis using ex_grid_ok(4) by (simp add: v(1,2))
qed

text \<open>
  Claim C3, amended: for every grid of width and height at least 3 whose only live cell is
  at (0,0), the aggregation pass leaves the neighbour count 1 at exactly the eight cells
  \<open>(W-1,H-1)\<close>, \<open>(W-1,0)\<close>, \<open>(0,H-1)\<close>, \<open>(1,0)\<close>, \<open>(0,1)\<close>, \<open>(1,1)\<close>,
  \<open>(W-1,1)\<close>, \<open>(1,H-1)\<close>, and 0 at every other cell.
\<close>

theorem wraparound_single_cell:
  assumes g: "grid_ok s" and w3: "3 \<le> W s" "3 \<le> H s"
    and one: "A s = (replicate (nat (N s)) 0)[0 := 1]"
    and xy: "0 \<le> x" "x < W s" "0 \<le> y" "y < H s"
  shows "Nsum (aggregate s) ! nat (y * W s + x) =
           (if (x, y) \<in> {(W s - 1, H s - 1), (W s - 1, 0), (0, H s - 1), (1, 0), (0, 1), (1, 1),
                           (W s - 1, 1), (1, H s - 1)}
            then 1 else 0)"
proof -
  have gs: "0 < W s" "0 < H s" "N s = W s * H s" "int (length (A s)) = W s * H s"
    using g by (simp_all add: grid_ok_def)
  have ir: "0 \<le> y * W s + x" "y * W s + x < N s"
    using cell_index_range[OF xy] gs by simp_all
  have dm: "(y * W s + x) mod W s = x" "(y * W s + x) div W s = y"
    using xy by simp_all
  have b: "binary (A s)"
    unfolding one by (intro binary_update binary_replicate) simp
  have cell: "\<And>a b. A s ! nat (b mod H s * W s + a mod W s) = (if a mod W s = 0 \<and> b mod H s = 0 then 1 else 0)"
  proof -
    fix a b
    let ?p = "b mod H s * W s + a mod W s"
    have r: "0 \<le> ?p" "?p < W s * H s"
      using cell_index_range[of "a mod W s" "W s" "b mod H s" "H s"] gs by simp_all
    have z: "?p = 0 \<longleftrightarrow> a mod W s = 0 \<and> b mod H s = 0"
      using index_zero[of "a mod W s" "b mod H s" "W s"] gs by simp
    have "A s ! nat ?p = (if nat ?p = 0 then 1 else 0)"
      using r gs by (simp add: one nth_list_update)
    then show "A s ! nat ?p = (if a mod W s = 0 \<and> b mod H s = 0 then 1 else 0)"
      using z r by simp
  qed
  have m: "x mod W s = 0 \<longleftrightarrow> x = 0" "y mod H s = 0 \<longleftrightarrow> y = 0"
    using xy by simp_all
  have lc: "live_count (A s) (W s) (H s) x y =
      (if (x, y) \<in> {(W s - 1, H s - 1), (W s - 1, 0), (0, H s - 1), (1, 0), (0, 1), (1, 1),
                           (W s - 1, 1), (1, H s - 1)}
            then 1 else 0)"
    using w3
    by (simp add: live_count_def torus_nbrs_def cell m mod_dec_zero[OF xy(1,2) w3(1)]
        mod_inc_zero[OF xy(1,2) w3(1)] mod_dec_zero[OF xy(3,4) w3(2)] mod_inc_zero[OF xy(3,4) w3(2)])
  have "Nsum (aggregate s) ! nat (y * W s + x) =
      to_uint8 (nsum_js (A s) (W s) (H s) x y)"
    using aggregate_facts(3)[OF g ir] unfolding dm .
  also have "\<dots> = live_count (A s) (W s) (H s) x y"
    using nsum_js_count(2)[OF b gs(1,2,4)] .
  finally show ?thesis
    unfolding lc .
qed

theorem wraparound_single_cell_witness:
  "grid_ok ex_one \<and> 3 \<le> W ex_one \<and> 3 \<le> H ex_one \<and>
   A ex_one = (replicate (nat (N ex_one)) 0)[0 := 1] \<and>
   (0::int) \<le> 3 \<and> 3 < W ex_one \<and> 3 < H ex_one \<and>
   Nsum (aggregate ex_one) ! nat (3 * W ex_one + 3) = 1"
proof -
  have h: "grid_ok ex_one" "3 \<le> W ex_one" "3 \<le> H ex_one"
    "A ex_one = (replicate (nat (N ex_one)) 0)[0 := 1]"
    "(0::int) \<le> 3" "3 < W ex_one" "3 < H ex_one"
    by (simp_all add: grid_ok_def ex_one_def)
  have v: "W ex_one = 4" "H ex_one = 4" by (simp_all add: ex_one_def)
  show ?thesis
    using h wraparound_single_cell[OF h(1,2,3,4,5,6,5,7)] by (simp add: v)
qed

subsection \<open>Fertility stays non-negative (C4)\<close>

text \<open>
  Claim C4: \<open>F[i] \<ge> 0\<close> for every cell after every tick, clear and reset; the
  description of the model that comes with the worker states \<open>F[i,j] \<ge> 0\<close> as well. The
  worker does not keep it: \<open>setParams\<close> stores a negative \<open>f0\<close> and \<open>reset\<close> fills
  \<open>F\<close> with it. After \<open>init(1,1)\<close>, \<open>setParams({f0: -1})\<close>, \<open>reset\<close> the only
  cell has fertility -1.
\<close>

theorem reset_negative_fertility:
  "F (run boot neg_f0_run) = [Fin (- 1)] \<and> \<not> nge (F (run boot neg_f0_run) ! 0) (Fin 0)"
proof -
  have "F (run boot neg_f0_run) = [Fin (- 1)]"
    by (simp add: neg_f0_run_def no_params_def boot_def ensureArrays_def Let_def fill_def
        can_alloc_def f32_vals)
  then show ?thesis by simp
qed

text \<open>A tick does not keep it either: once \<open>F[i] + alpha\<close> overflows float32, the
  diffusion pass subtracts infinities and \<open>Math.max(0, NaN)\<close> is \<open>NaN\<close>.\<close>

lemma tick_not_a_number:
  "F (run boot nan_run) = [NaN]"
proof -
  define s where "s = run boot [SetParams (no_params\<lparr>p_f0 := Some (1 / 2),
      p_alpha := Some (2 ^ 130), p_d := Some (1 / 4)\<rparr>), Init 1 1, SetCell 0 0 True]"
  have v: "initialized s" "W s = 1" "H s = 1" "N s = 1" "A s = [1]" "F s = [Fin (1 / 2)]"
    "length (A2 s) = 1" "length (Fsum s) = 1" "length (Nsum s) = 1"
    "alpha s = 2 ^ 130" "d s = 1 / 4"
    by (simp_all add: s_def no_params_def boot_def ensureArrays_def Let_def fill_def
        can_alloc_def f32_vals idx_def wr_def)
  have g: "grid_ok s" by (simp add: grid_ok_def v)
  have b: "binary (A s)" by (simp add: binary_def v)
  have xy: "(0::int) \<le> 0" "0 < W s" "0 < H s" by (simp_all add: v)
  have lc: "live_count (A s) 1 1 0 0 = 8"
    by (simp add: v live_count_def torus_nbrs_def)
  have fs: "fsum_js (F s) 1 1 0 0 = Fin 4"
    by (simp add: v fsum_js_def torus_nbrs_def rdf_def f64_vals)
  have big: "f64 (2 ^ 130 + 1 / 2) = Fin (2 ^ 130)"
  proof -
    have "rnd_val 53 (- 1022) (2 ^ 130 + 1 / 2) = 2 ^ 130"
      by (subst rnd_val_at[of _ 130]) (simp_all add: round_half_even_def)
    then show ?thesis by (simp add: f64_def rnd_def)
  qed
  have inf: "f32 (2 ^ 130) = PInf"
  proof -
    have "rnd_val 24 (- 126) (2 ^ 130) = 2 ^ 130"
      by (subst rnd_val_at[of _ 130]) (simp_all add: round_half_even_def)
    then show ?thesis by (simp add: f32_def rnd_def)
  qed
  note t = tick_at(2)[OF g xy(1,2,1,3) b, unfolded v(2,3) lc]
    tick_at(3)[OF g xy(1,2,1,3), unfolded v(2,3) fs]
  have tr: "F (fst (transitions (aggregate s))) ! 0 = PInf"
    using t(1) big inf by (simp add: rule_next_def book_def v)
  have "F (fst (step s)) ! 0 = NaN"
    using t(2) unfolding diff_val_def by (simp add: tr v f64_vals f32_vals)
  moreover have "length (F (fst (step s))) = 1"
    using step_grid_ok(1,3,4)[OF g] by (simp add: grid_ok_def v)
  ultimately have "F (fst (step s)) = [NaN]"
    by (cases "F (fst (step s))") simp_all
  moreover have "run boot nan_run = fst (onmessage s Step)"
    by (simp add: nan_run_def s_def del: onmessage.simps)
  ultimately show ?thesis using v(1) by (simp add: case_prod_beta)
qed

subsection \<open>Initialisation (C5)\<close>

text \<open>
  Claim C5, as stated: \<open>init\<close> with a non-positive width or height fails with an
  explicit error and leaves no partial mutation of the grid; for positive dimensions
  every fertility is \<open>f0\<close>. \<open>ensureArrays\<close> checks nothing: \<open>init(0, 0)\<close> succeeds,
  marks the worker initialized and posts an empty frame. \<open>init(-1, 3)\<close> fails, in the
  typed-array constructor, after \<open>W\<close>, \<open>H\<close> and \<open>N\<close> have been overwritten. And
  \<open>init(1, 1)\<close> with the default \<open>f0\<close>, the float64 nearest to 0.7, sets the
  fertility to the float32 nearest to it, which is another number. \<open>init(2^27, 2^27)\<close>
  has positive dimensions and fails: no typed array has \<open>2^54\<close> elements.
\<close>

theorem init_counterexample:
  "snd (onmessage boot (Init 0 0)) =
     Posted \<lparr> source = SrcInit, width = 0, height = 0, generation = 0, alive = 0, buffer = [] \<rparr> \<and>
   initialized (fst (onmessage boot (Init 0 0))) \<and>
   snd (onmessage ex_grid (Init (- 1) 3)) = Threw RangeError \<and>
   fst (onmessage ex_grid (Init (- 1) 3)) = ex_grid\<lparr>W := - 1, H := 3, N := - 3\<rparr> \<and>
   W ex_grid = 3 \<and>
   f0 boot = 3152519739159347 / 4503599627370496 \<and>
   F (fst (onmessage boot (Init 1 1))) = [Fin (11744051 / 16777216)] \<and>
   snd (onmessage boot (Init 134217728 134217728)) = Threw RangeError"
proof -
  have a: "alloc boot = (\<lambda>b n. True)" "f0 boot = 3152519739159347 / 4503599627370496"
    by (simp_all add: boot_def r64_vals)
  have "snd (onmessage boot (Init 0 0)) =
     Posted \<lparr> source = SrcInit, width = 0, height = 0, generation = 0, alive = 0, buffer = [] \<rparr>"
    "initialized (fst (onmessage boot (Init 0 0)))"
    by (simp_all add: ensureArrays_def a(1) Let_def fill_def postFrame_def renderFrame_def
        for_loop_def can_alloc_def)
  moreover have "snd (onmessage ex_grid (Init (- 1) 3)) = Threw RangeError"
    "fst (onmessage ex_grid (Init (- 1) 3)) = ex_grid\<lparr>W := - 1, H := 3, N := - 3\<rparr>"
    by (simp_all add: ensureArrays_def Let_def can_alloc_def)
  moreover have "F (fst (onmessage boot (Init 1 1))) = [Fin (11744051 / 16777216)]"
    by (simp add: ensureArrays_def a Let_def fill_def can_alloc_def f32_round_vals)
  moreover have "W ex_grid = 3" by (simp add: ex_grid_def)
  moreover have "snd (onmessage boot (Init 134217728 134217728)) = Threw RangeError"
    by (simp add: ensureArrays_def Let_def can_alloc_def)
  ultimately show ?thesis using a(2) by blast
qed

text \<open>
  Claim C5, amended. \<open>init(width, height)\<close> fails, with the \<open>RangeError\<close> of a
  typed-array constructor, exactly when a typed array of \<open>N = width * height\<close> bytes, of
  \<open>N\<close> float32 or (for the frame) of \<open>4 * N\<close> bytes cannot be created: \<open>N\<close> is
  negative, or the array would take \<open>2^53\<close> bytes or more, or it is beyond the memory of
  the engine. When the first constructor fails, \<open>W\<close>, \<open>H\<close> and \<open>N\<close> have been
  overwritten and nothing else has changed; when the second fails, \<open>A\<close> has been
  replaced as well. Otherwise, in
  particular for positive dimensions within the memory of the engine, the worker is
  initialized: all buffers have \<open>N\<close> cells, liveness is all zero, every fertility is the
  float32 nearest to \<open>f0\<close>, the generation is 0, and the initial frame is posted if its
  buffer can be created.
\<close>

theorem init_outcome:
  "(let n = wd * ht;
        s' = fst (onmessage s (Init wd ht));
        out = snd (onmessage s (Init wd ht))
    in (out = Threw RangeError \<longleftrightarrow>
          \<not> can_alloc s 1 n \<or> \<not> can_alloc s 4 n \<or> \<not> can_alloc s 1 (n * 4)) \<and>
       (\<not> can_alloc s 1 n \<longrightarrow> s' = s\<lparr>W := wd, H := ht, N := n\<rparr>) \<and>
       (can_alloc s 1 n \<and> \<not> can_alloc s 4 n \<longrightarrow>
          s' = s\<lparr>W := wd, H := ht, N := n, A := replicate (nat n) 0\<rparr>) \<and>
       (can_alloc s 1 n \<and> can_alloc s 4 n \<longrightarrow>
          s' = s\<lparr>W := wd, H := ht, N := n, A := replicate (nat n) 0,
                 F := replicate (nat n) (f32 (f0 s)), A2 := replicate (nat n) 0,
                 Fsum := replicate (nat n) (Fin 0), Nsum := replicate (nat n) 0,
                 gen := 0, initialized := True\<rparr> \<and>
          (can_alloc s 1 (n * 4) \<longrightarrow>
             (\<exists>px. out = Posted \<lparr> source = SrcInit, width = wd, height = ht, generation = 0,
                                   alive = 0, buffer = px \<rparr> \<and>
                   int (length px) = 4 * n))))"
proof -
  define n where "n = wd * ht"
  define t where "t = s\<lparr>W := wd, H := ht, N := n, A := replicate (nat n) 0,
                 F := replicate (nat n) (f32 (f0 s)), A2 := replicate (nat n) 0,
                 Fsum := replicate (nat n) (Fin 0), Nsum := replicate (nat n) 0,
                 gen := 0, initialized := True\<rparr>"
  have ct: "can_alloc t = can_alloc s" by (rule can_alloc_cong) (simp add: t_def)
  have tv: "N t = n" "W t = wd" "H t = ht" "gen t = 0" by (simp_all add: t_def)
  have f1: "\<not> can_alloc s 1 n \<Longrightarrow>
      onmessage s (Init wd ht) = (s\<lparr>W := wd, H := ht, N := n\<rparr>, Threw RangeError)"
    by (simp add: ensureArrays_fail(1) n_def)
  have f2: "can_alloc s 1 n \<Longrightarrow> \<not> can_alloc s 4 n \<Longrightarrow>
      onmessage s (Init wd ht) =
        (s\<lparr>W := wd, H := ht, N := n, A := replicate (nat n) 0\<rparr>, Threw RangeError)"
    by (simp add: ensureArrays_fail(2) n_def)
  have ok: "can_alloc s 1 n \<Longrightarrow> can_alloc s 4 n \<Longrightarrow>
      onmessage s (Init wd ht) = (t, postFrame t 0 SrcInit)"
    using ensureArrays_ok[of s wd ht] by (simp add: n_def t_def)
  have p1: "can_alloc s 1 (n * 4) \<Longrightarrow>
      \<exists>px. postFrame t 0 SrcInit =
              Posted \<lparr> source = SrcInit, width = wd, height = ht, generation = 0,
                       alive = 0, buffer = px \<rparr> \<and> int (length px) = 4 * n"
    using postFrame_posted[of t 0 SrcInit] by (auto simp: ct tv)
  have p2: "\<not> can_alloc s 1 (n * 4) \<Longrightarrow> postFrame t 0 SrcInit = Threw RangeError"
    using postFrame_threw[of t 0 SrcInit] by (simp add: ct tv)
  have iff: "snd (onmessage s (Init wd ht)) = Threw RangeError \<longleftrightarrow>
          \<not> can_alloc s 1 n \<or> \<not> can_alloc s 4 n \<or> \<not> can_alloc s 1 (n * 4)"
  proof (cases "can_alloc s 1 n \<and> can_alloc s 4 n")
    case True
    then show ?thesis using ok p1 p2 by (cases "can_alloc s 1 (n * 4)") auto
  next
    case False
    then show ?thesis using f1 f2 by (cases "can_alloc s 1 n") auto
  qed
  have c2: "\<not> can_alloc s 1 n \<longrightarrow> fst (onmessage s (Init wd ht)) = s\<lparr>W := wd, H := ht, N := n\<rparr>"
    using f1 by simp
  have c3: "can_alloc s 1 n \<and> \<not> can_alloc s 4 n \<longrightarrow>
      fst (onmessage s (Init wd ht)) = s\<lparr>W := wd, H := ht, N := n, A := replicate (nat n) 0\<rparr>"
    using f2 by simp
  have c4: "can_alloc s 1 n \<and> can_alloc s 4 n \<longrightarrow>
      fst (onmessage s (Init wd ht)) = t \<and>
      (can_alloc s 1 (n * 4) \<longrightarrow>
         (\<exists>px. snd (onmessage s (Init wd ht)) =
                 Posted \<lparr> source = SrcInit, width = wd, height = ht, generation = 0,
                          alive = 0, buffer = px \<rparr> \<and> int (length px) = 4 * n))"
    using ok p1 by simp
  show ?thesis
    unfolding Let_def n_def[symmetric] using iff c2 c3 c4[unfolded t_def] by blast
qed

theorem init_outcome_witness:
  "can_alloc boot 1 (2 * 3) \<and> can_alloc boot 4 (2 * 3) \<and> can_alloc boot 1 (2 * 3 * 4) \<and>
   \<not> can_alloc boot 1 (2 * - 3) \<and>
   snd (onmessage boot (Init 2 3)) \<noteq> Threw RangeError \<and>
   initialized (fst (onmessage boot (Init 2 3))) \<and>
   A (fst (onmessage boot (Init 2 3))) = [0, 0, 0, 0, 0, 0] \<and>
   F (fst (onmessage boot (Init 2 3))) = replicate 6 (Fin (11744051 / 16777216)) \<and>
   gen (fst (onmessage boot (Init 2 3))) = 0 \<and>
   onmessage boot (Init 2 (- 3)) = (boot\<lparr>W := 2, H := - 3, N := - 6\<rparr>, Threw RangeError)"
proof -
  have h: "can_alloc boot 1 (2 * 3)" "can_alloc boot 4 (2 * 3)" "can_alloc boot 1 (2 * 3 * 4)"
    "\<not> can_alloc boot 1 (2 * - 3)"
    by (simp_all add: can_alloc_def boot_def)
  have v: "f0 boot = 3152519739159347 / 4503599627370496" by (simp add: boot_def r64_vals)
  note a = init_outcome[where s = boot and wd = 2 and ht = 3, unfolded Let_def v f32_round_vals]
  note b = init_outcome[where s = boot and wd = 2 and ht = "- 3", unfolded Let_def]
  have "snd (onmessage boot (Init 2 3)) \<noteq> Threw RangeError"
    using a h by blast
  moreover have "fst (onmessage boot (Init 2 3)) =
      boot\<lparr>W := 2, H := 3, N := 2 * 3, A := replicate (nat (2 * 3)) 0,
           F := replicate (nat (2 * 3)) (Fin (11744051 / 16777216)),
           A2 := replicate (nat (2 * 3)) 0, Fsum := replicate (nat (2 * 3)) (Fin 0),
           Nsum := replicate (nat (2 * 3)) 0, gen := 0, initialized := True\<rparr>"
    using a h by blast
  moreover have "snd (onmessage boot (Init 2 (- 3))) = Threw RangeError"
    "fst (onmessage boot (Init 2 (- 3))) = boot\<lparr>W := 2, H := - 3, N := 2 * - 3\<rparr>"
    using b h by blast+
  ultimately show ?thesis
    using h by (simp add: eval_nat_numeral prod_eq_iff del: onmessage.simps)
qed

subsection \<open>Commands before initialisation (C6)\<close>

text \<open>
  Claim C6, as stated: before the first \<open>init\<close>, \<open>setParams\<close> is a no-op. The handler
  accepts parameter updates at any time: on the freshly loaded worker it changes \<open>f0\<close>.
\<close>

theorem uninitialized_params_counterexample:
  "\<not> initialized boot \<and> f0 boot = 3152519739159347 / 4503599627370496 \<and>
   f0 (fst (onmessage boot (SetParams (no_params\<lparr>p_f0 := Some (1 / 4)\<rparr>)))) = 1 / 4"
  by (simp add: boot_def no_params_def r64_vals)

text \<open>
  Claim C6, amended: while the worker is not initialized, \<open>step\<close>, \<open>render\<close>,
  \<open>setCell\<close>, \<open>clear\<close> and \<open>reset\<close> change nothing and post no frame, in the
  revision that has the command and in the one that ignores it; \<open>setParams\<close> posts no
  frame and changes neither the grid buffers nor the dimensions nor the generation counter
  (it does update the parameters, as in the Ready state).
\<close>

theorem uninitialized_noop:
  assumes "\<not> initialized s"
  shows "onmessage s Step = (s, NoFrame) \<and> onmessage s Render = (s, NoFrame) \<and>
         onmessage s (SetCell x y v) = (s, NoFrame) \<and> onmessage s Clear = (s, NoFrame) \<and>
         onmessage s Reset = (s, NoFrame) \<and>
         snd (onmessage s (SetParams p)) = NoFrame \<and>
         (let s' = fst (onmessage s (SetParams p))
          in initialized s' = initialized s \<and> W s' = W s \<and> H s' = H s \<and> N s' = N s \<and>
             A s' = A s \<and> F s' = F s \<and> A2 s' = A2 s \<and> Fsum s' = Fsum s \<and>
             Nsum s' = Nsum s \<and> gen s' = gen s) \<and>
         onmessage1 s Step = (s, NoFrame) \<and> onmessage1 s Render = (s, NoFrame) \<and>
         onmessage1 s (SetCell x y v) = (s, NoFrame) \<and> onmessage1 s Clear = (s, NoFrame) \<and>
         onmessage1 s Reset = (s, NoFrame)"
proof -
  have "onmessage s Step = (s, NoFrame)" "onmessage s Render = (s, NoFrame)"
    "onmessage s (SetCell x y v) = (s, NoFrame)" "onmessage s Clear = (s, NoFrame)"
    "onmessage s Reset = (s, NoFrame)"
    "onmessage1 s Step = (s, NoFrame)" "onmessage1 s Render = (s, NoFrame)"
    "onmessage1 s (SetCell x y v) = (s, NoFrame)" "onmessage1 s Clear = (s, NoFrame)"
    "onmessage1 s Reset = (s, NoFrame)"
    using assms by simp_all
  moreover have "let s' = fst (onmessage s (SetParams p))
          in initialized s' = initialized s \<and> W s' = W s \<and> H s' = H s \<and> N s' = N s \<and>
             A s' = A s \<and> F s' = F s \<and> A2 s' = A2 s \<and> Fsum s' = Fsum s \<and>
             Nsum s' = Nsum s \<and> gen s' = gen s"
    unfolding set_params_fields Let_def by simp
  ultimately show ?thesis using set_params_no_frame[of s p] by blast
qed

theorem uninitialized_noop_witness:
  "\<not> initialized boot \<and> onmessage boot Step = (boot, NoFrame) \<and>
   onmessage boot Reset = (boot, NoFrame) \<and>
   snd (onmessage boot (SetParams (no_params\<lparr>p_f0 := Some (1 / 4)\<rparr>))) = NoFrame \<and>
   F (fst (onmessage boot (SetParams (no_params\<lparr>p_f0 := Some (1 / 4)\<rparr>)))) = F boot \<and>
   \<not> initialized boot1 \<and> onmessage1 boot1 Clear = (boot1, NoFrame) \<and>
   onmessage1 boot1 Step = (boot1, NoFrame)"
proof -
  have h: "\<not> initialized boot" "\<not> initialized boot1" by (simp_all add: boot_def boot1_def)
  show ?thesis
    using h uninitialized_noop[OF h(1), of 0 0 True "no_params\<lparr>p_f0 := Some (1 / 4)\<rparr>"]
      uninitialized_noop[OF h(2), of 0 0 True no_params]
    by (simp add: Let_def del: onmessage.simps onmessage1.simps)
qed

subsection \<open>Clear and reset (C7)\<close>

text \<open>
  Claim C7, as stated: after \<open>reset\<close> every fertility is \<open>f0\<close>, and after \<open>clear\<close>
  every fertility is 0. \<open>F.fill(f0)\<close> stores the float32 nearest to \<open>f0\<close>: in the
  worker initialized with the default parameters, \<open>f0\<close> is the float64 nearest to 0.7
  and \<open>reset\<close> leaves another number in \<open>F\<close>. And the revision of the worker that has
  \<open>reset\<close> has no \<open>clear\<close>: the message leaves \<open>F\<close> as it is.
\<close>

theorem reset_rounds_counterexample:
  "initialized ready1 \<and> f0 ready1 = 3152519739159347 / 4503599627370496 \<and>
   F (fst (onmessage ready1 Reset)) = [Fin (11744051 / 16777216)] \<and>
   F (fst (onmessage ready1 Clear)) = [Fin (11744051 / 16777216)]"
  by (simp add: ready1_def boot_def ensureArrays_def Let_def fill_def can_alloc_def r64_vals
      f32_round_vals)

text \<open>
  Claim C7, amended. \<open>clear\<close> is a command of the first revision of the worker and
  \<open>reset\<close> one of the second; each revision ignores the other command. In the Ready
  state, after \<open>clear\<close> no cell is alive, every fertility is 0 and the generation is 0;
  after \<open>reset\<close> no cell is alive, every fertility is the float32 nearest to the current
  \<open>f0\<close> and the generation is 0. The frame posted in either case (when its buffer can be
  created) reports generation 0 and no live cell.
\<close>

theorem clear_reset:
  assumes "initialized s"
  shows "(let s' = fst (onmessage1 s Clear)
          in sum_list (A s') = 0 \<and> A s' = replicate (length (A s)) 0 \<and>
             F s' = replicate (length (F s)) (Fin 0) \<and> gen s' = 0) \<and>
         (let s' = fst (onmessage s Reset)
          in sum_list (A s') = 0 \<and> A s' = replicate (length (A s)) 0 \<and>
             F s' = replicate (length (F s)) (f32 (f0 s)) \<and> gen s' = 0) \<and>
         (can_alloc s 1 (N s * 4) \<longrightarrow>
            (\<exists>px. snd (onmessage1 s Clear) =
                    Posted \<lparr> source = SrcClear, width = W s, height = H s, generation = 0,
                             alive = 0, buffer = px \<rparr>) \<and>
            (\<exists>px. snd (onmessage s Reset) =
                    Posted \<lparr> source = SrcReset, width = W s, height = H s, generation = 0,
                             alive = 0, buffer = px \<rparr>)) \<and>
         onmessage s Clear = (s, NoFrame) \<and> onmessage1 s Reset = (s, NoFrame)"
proof -
  define c where "c = s\<lparr>A := fill (A s) 0, F := fill (F s) (Fin 0), gen := 0\<rparr>"
  define r where "r = s\<lparr>A := fill (A s) 0, F := fill (F s) (f32 (f0 s)), gen := 0\<rparr>"
  have oc: "onmessage1 s Clear = (c, postFrame c 0 SrcClear)"
    and orr: "onmessage s Reset = (r, postFrame r 0 SrcReset)"
    using assms by (simp_all add: Let_def c_def r_def f32_zero)
  have fc: "sum_list (A c) = 0" "A c = replicate (length (A s)) 0"
    "F c = replicate (length (F s)) (Fin 0)" "gen c = 0" "N c = N s" "W c = W s" "H c = H s"
    by (simp_all add: c_def fill_def)
  have fr: "sum_list (A r) = 0" "A r = replicate (length (A s)) 0"
    "F r = replicate (length (F s)) (f32 (f0 s))" "gen r = 0" "N r = N s" "W r = W s" "H r = H s"
    by (simp_all add: r_def fill_def)
  have ca: "can_alloc c = can_alloc s" "can_alloc r = can_alloc s"
    by (rule can_alloc_cong, simp add: c_def r_def)+
  have p: "can_alloc s 1 (N s * 4) \<longrightarrow>
            (\<exists>px. snd (onmessage1 s Clear) =
                    Posted \<lparr> source = SrcClear, width = W s, height = H s, generation = 0,
                             alive = 0, buffer = px \<rparr>) \<and>
            (\<exists>px. snd (onmessage s Reset) =
                    Posted \<lparr> source = SrcReset, width = W s, height = H s, generation = 0,
                             alive = 0, buffer = px \<rparr>)"
    using postFrame_posted[of c 0 SrcClear] postFrame_posted[of r 0 SrcReset]
    unfolding oc orr by (auto simp: fc fr ca)
  have ig: "onmessage s Clear = (s, NoFrame)" "onmessage1 s Reset = (s, NoFrame)"
    by simp_all
  show ?thesis
    unfolding oc orr Let_def fst_conv using fc(1-4) fr(1-4) p[unfolded oc orr] ig[unfolded oc orr]
    by blast
qed

theorem clear_reset_witness:
  "initialized ex_grid \<and> can_alloc ex_grid 1 (N ex_grid * 4) \<and>
   sum_list (A (fst (onmessage1 ex_grid Clear))) = 0 \<and>
   F (fst (onmessage1 ex_grid Clear)) = replicate 9 (Fin 0) \<and>
   gen (fst (onmessage1 ex_grid Clear)) = 0 \<and>
   sum_list (A (fst (onmessage ex_grid Reset))) = 0 \<and>
   F (fst (onmessage ex_grid Reset)) = replicate 9 (Fin (3 / 4)) \<and>
   gen (fst (onmessage ex_grid Reset)) = 0 \<and>
   (\<exists>px. snd (onmessage ex_grid Reset) =
            Posted \<lparr> source = SrcReset, width = 3, height = 3, generation = 0,
                     alive = 0, buffer = px \<rparr>)"
proof -
  have h: "initialized ex_grid" "can_alloc ex_grid 1 (N ex_grid * 4)"
    by (simp_all add: ex_grid_def can_alloc_def boot_def)
  have v: "length (F ex_grid) = 9" "f0 ex_grid = 3 / 4" "W ex_grid = 3" "H ex_grid = 3"
    by (simp_all add: ex_grid_def)
  note c = clear_reset[OF h(1), unfolded Let_def v f32_vals]
  show ?thesis
    using h c by blast
qed

subsection \<open>Merging parameters (C8)\<close>




subsection \<open>Rendering is pure (C9)\<close>




subsection \<open>No validation of f0 (C10)\<close>

text \<open>
  Claim C10, as stated: after \<open>setParams\<close> with \<open>f0 = c\<close>, the next \<open>reset\<close> sets every
  fertility to \<open>c\<close>, so a negative \<open>c\<close> makes every fertility negative. \<open>reset\<close>
  stores the float32 nearest to \<open>c\<close>: with \<open>c = -2^-200\<close> every fertility is zero.
\<close>

theorem f0_tiny_counterexample:
  "initialized ready1 \<and>
   f0 (fst (onmessage ready1 (SetParams (no_params\<lparr>p_f0 := Some (- (1 / 2 ^ 200))\<rparr>)))) =
     - (1 / 2 ^ 200) \<and>
   F (fst (onmessage (fst (onmessage ready1
        (SetParams (no_params\<lparr>p_f0 := Some (- (1 / 2 ^ 200))\<rparr>)))) Reset)) = [Fin 0]"
  using f32_round_vals(3)
  by (simp add: ready1_def boot_def ensureArrays_def Let_def fill_def can_alloc_def
      no_params_def)

text \<open>
  Claim C10, amended. \<open>setParams\<close> stores a supplied \<open>f0\<close> as it is, whatever its
  value (and likewise every supplied field other than \<open>w0\<close>); a \<open>reset\<close> that follows
  sets every fertility to the float32 nearest to that value, which is negative (or minus
  infinity) whenever the value is at most \<open>-2^-149\<close>.
\<close>

theorem f0_unvalidated:
  assumes "p_f0 p = Some c"
  shows "f0 (fst (onmessage s (SetParams p))) = c \<and>
         (initialized s \<longrightarrow>
            F (fst (onmessage (fst (onmessage s (SetParams p))) Reset)) =
              replicate (length (F s)) (f32 c)) \<and>
         (c \<le> - (1 / 2 ^ 149) \<longrightarrow> f32 c = NInf \<or> (\<exists>r. r < 0 \<and> f32 c = Fin r)) \<and>
         (\<forall>v. p_tau p = Some v \<longrightarrow> tau (fst (onmessage s (SetParams p))) = v) \<and>
         (\<forall>v. p_sigma p = Some v \<longrightarrow> sigma (fst (onmessage s (SetParams p))) = v) \<and>
         (\<forall>v. p_alpha p = Some v \<longrightarrow> alpha (fst (onmessage s (SetParams p))) = v) \<and>
         (\<forall>v. p_beta p = Some v \<longrightarrow> beta (fst (onmessage s (SetParams p))) = v) \<and>
         (\<forall>v. p_kappa p = Some v \<longrightarrow> kappa (fst (onmessage s (SetParams p))) = v) \<and>
         (\<forall>v. p_d p = Some v \<longrightarrow> d (fst (onmessage s (SetParams p))) = v) \<and>
         (\<forall>v. p_delta p = Some v \<longrightarrow> delta (fst (onmessage s (SetParams p))) = v)"
proof -
  define s' where "s' = fst (onmessage s (SetParams p))"
  have f: "f0 s' = c" "initialized s' = initialized s" "F s' = F s"
    unfolding s'_def set_params_fields using assms by (simp_all add: pick_def)
  have r: "initialized s \<longrightarrow> F (fst (onmessage s' Reset)) = replicate (length (F s)) (f32 c)"
    using f by (simp add: Let_def fill_def)
  have n: "c \<le> - (1 / 2 ^ 149) \<longrightarrow> f32 c = NInf \<or> (\<exists>r. r < 0 \<and> f32 c = Fin r)"
    using f32_neg by blast
  have o: "(\<forall>v. p_tau p = Some v \<longrightarrow> tau s' = v) \<and>
         (\<forall>v. p_sigma p = Some v \<longrightarrow> sigma s' = v) \<and>
         (\<forall>v. p_alpha p = Some v \<longrightarrow> alpha s' = v) \<and>
         (\<forall>v. p_beta p = Some v \<longrightarrow> beta s' = v) \<and>
         (\<forall>v. p_kappa p = Some v \<longrightarrow> kappa s' = v) \<and>
         (\<forall>v. p_d p = Some v \<longrightarrow> d s' = v) \<and>
         (\<forall>v. p_delta p = Some v \<longrightarrow> delta s' = v)"
    unfolding s'_def set_params_fields by (simp add: pick_def)
  show ?thesis
    using f(1) r n o unfolding s'_def by blast
qed

theorem f0_unvalidated_witness:
  "p_f0 (no_params\<lparr>p_f0 := Some (- 1)\<rparr>) = Some (- 1) \<and> initialized ex_grid \<and>
   (- 1 :: real) \<le> - (1 / 2 ^ 149) \<and>
   f0 (fst (onmessage ex_grid (SetParams (no_params\<lparr>p_f0 := Some (- 1)\<rparr>)))) = - 1 \<and>
   F (fst (onmessage (fst (onmessage ex_grid (SetParams (no_params\<lparr>p_f0 := Some (- 1)\<rparr>)))) Reset)) =
     replicate 9 (Fin (- 1))"
proof -
  have h: "p_f0 (no_params\<lparr>p_f0 := Some (- 1)\<rparr>) = Some (- 1)" by simp
  have i: "initialized ex_grid" "length (F ex_grid) = 9" by (simp_all add: ex_grid_def)
  have c: "(- 1 :: real) \<le> - (1 / 2 ^ 149)" by simp
  show ?thesis
    using h i c f0_unvalidated[OF h, of ex_grid] by (simp add: f32_vals del: onmessage.simps)
qed

end
